theory Spec2Isabelle
  imports Main "HOL-Library.Sublist"
begin

section \<open>Exceptions, frames and the camera library\<close>

text \<open>
  The classes of Python exception that the handlers of \<open>capture\<close> tell apart:
  \<open>cv2.error\<close>, \<open>MemoryError\<close>, and every other subclass of \<open>Exception\<close>
  (for instance \<open>PermissionError\<close>). All three are subclasses of \<open>Exception\<close>, so a
  bare \<open>except:\<close> and an \<open>except Exception\<close> both catch each of them.
  \<open>KeyboardInterrupt\<close> and \<open>SystemExit\<close> are signals of the process, not results of
  a library call, and are outside this model.
\<close>

datatype exn = CvError | MemoryError | OtherException

datatype 'a outcome = Ret 'a | Raise exn

text \<open>A frame is \<open>None\<close> or an array, of which only \<open>frame.size\<close> is inspected.\<close>

type_synonym frame = "nat option"

text \<open>\<open>ret and frame is not None and frame.size > 0\<close>\<close>

definition frame_ok :: "bool \<Rightarrow> frame \<Rightarrow> bool" where
  "frame_ok ret frame = (ret \<and> (case frame of None \<Rightarrow> False | Some sz \<Rightarrow> 0 < sz))"

text \<open>A call of \<open>cap.read()\<close> that returns a frame the loops accept.\<close>

definition read_ok :: "(bool \<times> frame) outcome \<Rightarrow> bool" where
  "read_ok r = (case r of Ret (ret, frame) \<Rightarrow> frame_ok ret frame | Raise e \<Rightarrow> False)"

text \<open>
  The six places at which \<open>capture\<close> calls \<open>cap.release()\<close>: lines 565, 586, 605, 631,
  653 and 666 of \<open>main.py\<close>.
\<close>

datatype site = NotOpened | TestFailed | CaptureFailed | Saved | AfterSave | Cleanup

text \<open>
  The behaviour of the OpenCV module during one run. Every call is indexed by the camera
  index of the device cycle that makes it.
  \<^item> \<open>VideoCapture i\<close>: the constructor raises, or returns a handle whose \<open>isOpened()\<close>
    is the given boolean;
  \<^item> \<open>cap_set i\<close>: \<open>cap.set(CAP_PROP_BUFFERSIZE, 1)\<close>;
  \<^item> \<open>cap_read i k\<close>: the \<open>k\<close>-th call (from 0) of \<open>cap.read()\<close> on that handle;
  \<^item> \<open>cap_release i s\<close>: the call of \<open>cap.release()\<close> at site \<open>s\<close>;
  \<^item> \<open>imwrite i\<close>: the flag \<open>cv2.imwrite\<close> returns, or what it raises;
    \<open>imwrite_file i\<close>: the size of the file the call leaves at the path, \<open>None\<close> when it
    leaves the disk as it was;
  \<^item> \<open>destroyAllWindows i\<close>: \<open>cv2.destroyAllWindows()\<close>.
\<close>

record cv2_module =
  VideoCapture :: "nat \<Rightarrow> bool outcome"
  cap_set :: "nat \<Rightarrow> unit outcome"
  cap_read :: "nat \<Rightarrow> nat \<Rightarrow> (bool \<times> frame) outcome"
  cap_release :: "nat \<Rightarrow> site \<Rightarrow> unit outcome"
  imwrite :: "nat \<Rightarrow> bool outcome"
  imwrite_file :: "nat \<Rightarrow> nat option"
  destroyAllWindows :: "nat \<Rightarrow> unit outcome"

text \<open>
  The clock as \<open>time.strftime\<close> and \<open>datetime.datetime.now()\<close> read it; the latter is
  inside a \<open>try\<close> of its own.
\<close>

record clock_reading =
  tm_year :: nat
  tm_mon :: nat
  tm_mday :: nat
  tm_hour :: nat
  tm_min :: nat
  tm_sec :: nat
  microsecond :: "nat outcome"

text \<open>
  The rest of the environment: the clock during the cycle of camera \<open>i\<close>, and whether the
  saved file is removed by somebody else during the pause before the final check.
\<close>

record environment =
  clock :: "nat \<Rightarrow> clock_reading"
  vanishes :: "nat \<Rightarrow> bool"

text \<open>The fields of \<open>UltraRobustCameraCapture\<close> that \<open>capture\<close> reads.\<close>

record camera_capture =
  output_dir :: string
  hostname :: string
  mac :: string
  username :: string
  cv2 :: "cv2_module option"
  modules_available :: "string \<rightharpoonup> bool"

text \<open>The disk: the size of the file at each path.\<close>

type_synonym disk = "string \<rightharpoonup> nat"

section \<open>Events\<close>

datatype level = DEBUG | INFO | WARNING | ERROR | SUCCESS

text \<open>One constructor for each call of \<open>_log_event\<close> in \<open>capture\<close>.\<close>

datatype message =
    StartingCapture
  | OpenCVNotAvailable
  | InstallHint
  | TryingCamera nat
  | CouldNotBeOpened nat
  | CameraTestFailed nat
  | CameraCaptureFailed nat
  | Captured string nat
  | FileDisappeared string
  | FileTooSmall string nat
  | FileNotCreated string
  | ImwriteFailed string
  | OpenCVWriteError
  | FileSaveError exn
  | OpenCVError nat
  | MemoryErrorOn nat
  | UnexpectedError nat exn
  | NoCamerasAvailable nat

text \<open>
  What a run does to the outside, in order: library calls with their results, sleeps (in
  milliseconds) and log entries. \<open>_log_event\<close> swallows its own errors, so a log entry
  never raises.
\<close>

datatype event =
    Log level message
  | CallVideoCapture nat "bool outcome"
  | CallSet nat "unit outcome"
  | CallRead nat "(bool \<times> frame) outcome"
  | CallRelease nat "unit outcome"
  | CallMakedirs string
  | CallImwrite string "bool outcome"
  | CallDestroyAllWindows "unit outcome"
  | Sleep nat

text \<open>
  The device handles that are open after a sequence of events: a constructor that returns
  an opened handle acquires the device, a \<open>release()\<close> that returns frees it (and does
  nothing to a device that is not held), and a \<open>release()\<close> that raises leaves it held.
\<close>

fun step_open :: "nat list \<Rightarrow> event \<Rightarrow> nat list" where
  "step_open H (CallVideoCapture i (Ret True)) = i # H"
| "step_open H (CallRelease i (Ret u)) = removeAll i H"
| "step_open H e = H"

definition holding :: "event list \<Rightarrow> nat list" where
  "holding evs = foldl step_open [] evs"

fun is_open_attempt :: "event \<Rightarrow> bool" where
  "is_open_attempt (CallVideoCapture i r) = True"
| "is_open_attempt e = False"

fun is_read :: "event \<Rightarrow> bool" where
  "is_read (CallRead i r) = True"
| "is_read e = False"

fun is_release :: "event \<Rightarrow> bool" where
  "is_release (CallRelease i r) = True"
| "is_release e = False"

fun is_error_log :: "event \<Rightarrow> bool" where
  "is_error_log (Log ERROR m) = True"
| "is_error_log e = False"

definition open_attempts :: "event list \<Rightarrow> event list" where
  "open_attempts evs = filter is_open_attempt evs"

section \<open>File names\<close>

text \<open>Decimal digits of a number, and left padding with zeros as \<open>{ms:03d}\<close> does.\<close>

fun dec :: "nat \<Rightarrow> string" where
  "dec n = (if n < 10 then [''0123456789'' ! n]
            else dec (n div 10) @ [''0123456789'' ! (n mod 10)])"

declare dec.simps [simp del]

definition zfill :: "nat \<Rightarrow> string \<Rightarrow> string" where
  "zfill w s = replicate (w - length s) (CHR ''0'') @ s"

text \<open>\<open>time.strftime("%Y%m%d_%H%M%S")\<close>\<close>

definition strftime :: "clock_reading \<Rightarrow> string" where
  "strftime t =
     zfill 4 (dec (tm_year t)) @ zfill 2 (dec (tm_mon t)) @ zfill 2 (dec (tm_mday t)) @ ''_'' @
     zfill 2 (dec (tm_hour t)) @ zfill 2 (dec (tm_min t)) @ zfill 2 (dec (tm_sec t))"

text \<open>\<open>"_".join(components)\<close>\<close>

fun join_underscore :: "string list \<Rightarrow> string" where
  "join_underscore [] = []"
| "join_underscore [c] = c"
| "join_underscore (c # cs) = c @ ''_'' @ join_underscore cs"

text \<open>The string \<open>'<>:"/\\|?*\n\r\t\0'\<close> of line 519.\<close>

definition invalid_chars :: string where
  "invalid_chars =
     [CHR ''<'', CHR ''>'', CHR '':'', CHR 0x22, CHR ''/'', CHR 0x5C, CHR ''|'', CHR ''?'',
      CHR ''*'', CHR 0x0A, CHR 0x0D, CHR 0x09, CHR 0x00]"

text \<open>\<open>filename.replace(char, '_')\<close>\<close>

definition replace_char :: "char \<Rightarrow> string \<Rightarrow> string" where
  "replace_char c s = map (\<lambda>x. if x = c then CHR ''_'' else x) s"

text \<open>\<open>p.rfind(c)\<close>, with \<open>-1\<close> when the character does not occur.\<close>

definition rfind :: "char \<Rightarrow> string \<Rightarrow> int" where
  "rfind c p =
     (case filter (\<lambda>i. p ! i = c) (rev [0..<length p]) of [] \<Rightarrow> - 1 | i # _ \<Rightarrow> int i)"

text \<open>\<open>os.path.splitext\<close> (POSIX): the extension starts at the last dot of the last
  component, unless only dots come before it.\<close>

definition splitext :: "string \<Rightarrow> string \<times> string" where
  "splitext p =
     (let sepIndex = rfind (CHR ''/'') p; dotIndex = rfind (CHR ''.'') p
      in if sepIndex < dotIndex \<and>
            list_ex (\<lambda>j. p ! j \<noteq> CHR ''.'') [nat (sepIndex + 1)..<nat dotIndex]
         then (take (nat dotIndex) p, drop (nat dotIndex) p)
         else (p, []))"

text \<open>
  \<open>_generate_filename_safe\<close>. The body of its outer \<open>try\<close> raises nothing on string
  fields and a clock reading, so the fallback name of line 534 is not reached.
\<close>

definition generate_filename_safe :: "camera_capture \<Rightarrow> clock_reading \<Rightarrow> string" where
  "generate_filename_safe self t =
     (let timestamp = strftime t @
            (case microsecond t of
               Ret us \<Rightarrow> ''_'' @ zfill 3 (dec (us div 1000))
             | Raise e \<Rightarrow> ''_000'');
          components =
            (if hostname self \<noteq> [] \<and> hostname self \<noteq> ''unknown_host''
             then [take 30 (hostname self)] else []) @
            (if mac self \<noteq> [] \<and> mac self \<noteq> ''unknown-mac''
             then [take 20 (mac self)] else []) @
            (if username self \<noteq> [] \<and> username self \<noteq> ''unknown_user''
             then [take 20 (username self)] else []) @
            [timestamp];
          filename = join_underscore components @ ''.jpg'';
          filename = fold replace_char invalid_chars filename
      in if 200 < length filename
         then (case splitext filename of (name, ext) \<Rightarrow> take (200 - length ext) name @ ext)
         else filename)"

text \<open>\<open>os.path.join(a, b)\<close> and \<open>os.path.dirname(p)\<close> (POSIX).\<close>

definition path_join :: "string \<Rightarrow> string \<Rightarrow> string" where
  "path_join a b =
     (if b \<noteq> [] \<and> hd b = CHR ''/'' then b
      else if a = [] \<or> last a = CHR ''/'' then a @ b
      else a @ ''/'' @ b)"

definition dirname :: "string \<Rightarrow> string" where
  "dirname p =
     (let head = take (nat (rfind (CHR ''/'') p + 1)) p
      in if head \<noteq> [] \<and> head \<noteq> replicate (length head) (CHR ''/'')
         then rev (dropWhile (\<lambda>c. c = CHR ''/'') (rev head))
         else head)"

section \<open>The capture loop\<close>

text \<open>
  The validation loop of lines 572-582, \<open>for test_attempt in range(3)\<close>, with the number
  of attempts still to make as a parameter and \<open>k\<close> the number of reads made so far on
  the handle. It returns \<open>test_success\<close>, the new read count, and the events. The bare
  \<open>except:\<close> swallows whatever \<open>cap.read()\<close> raises.
\<close>

fun test_camera :: "cv2_module \<Rightarrow> nat \<Rightarrow> nat \<Rightarrow> nat \<Rightarrow> bool \<times> nat \<times> event list" where
  "test_camera cv cam_id 0 k = (False, k, [])"
| "test_camera cv cam_id (Suc n) k =
     (case cap_read cv cam_id k of
        Ret (ret, frame) \<Rightarrow>
          if frame_ok ret frame
          then (True, Suc k, [CallRead cam_id (Ret (ret, frame))])
          else (case test_camera cv cam_id n (Suc k) of
                  (ok, k', evs) \<Rightarrow>
                    (ok, k', CallRead cam_id (Ret (ret, frame)) # Sleep 100 # evs))
      | Raise e \<Rightarrow>
          (case test_camera cv cam_id n (Suc k) of
             (ok, k', evs) \<Rightarrow> (ok, k', CallRead cam_id (Raise e) # Sleep 100 # evs)))"

text \<open>
  The capture loop of lines 592-601. The variables \<open>ret, frame\<close> start as \<open>None, None\<close>
  and keep the result of the last read that returned.
\<close>

fun capture_frame ::
  "cv2_module \<Rightarrow> nat \<Rightarrow> nat \<Rightarrow> nat \<Rightarrow> bool option \<times> frame \<Rightarrow> (bool option \<times> frame) \<times> event list"
where
  "capture_frame cv cam_id 0 k rf = (rf, [])"
| "capture_frame cv cam_id (Suc n) k rf =
     (case cap_read cv cam_id k of
        Ret (ret, frame) \<Rightarrow>
          if frame_ok ret frame
          then ((Some ret, frame), [CallRead cam_id (Ret (ret, frame))])
          else (case capture_frame cv cam_id n (Suc k) (Some ret, frame) of
                  (rf', evs) \<Rightarrow> (rf', CallRead cam_id (Ret (ret, frame)) # Sleep 50 # evs))
      | Raise e \<Rightarrow>
          (case capture_frame cv cam_id n (Suc k) rf of
             (rf', evs) \<Rightarrow> (rf', CallRead cam_id (Raise e) # Sleep 50 # evs)))"

text \<open>\<open>not ret or frame is None or frame.size == 0\<close> (line 603)\<close>

definition no_frame :: "bool option \<times> frame \<Rightarrow> bool" where
  "no_frame rf =
     (case rf of (ret, frame) \<Rightarrow>
        ret \<noteq> Some True \<or> (case frame of None \<Rightarrow> True | Some sz \<Rightarrow> sz = 0))"

text \<open>How a block of statements ends.\<close>

datatype flow = Return bool | Continue | Fallthrough | Raised exn

definition write_file :: "nat option \<Rightarrow> string \<Rightarrow> disk \<Rightarrow> disk" where
  "write_file w p d = (case w of None \<Rightarrow> d | Some n \<Rightarrow> d(p \<mapsto> n))"

text \<open>The body of the inner \<open>try\<close>, lines 620-645.\<close>

definition save_body ::
  "cv2_module \<Rightarrow> environment \<Rightarrow> nat \<Rightarrow> string \<Rightarrow> string \<Rightarrow> disk \<Rightarrow> flow \<times> event list \<times> disk"
where
  "save_body cv env cam_id filename filepath d =
     (let success = imwrite cv cam_id;
          d1 = write_file (imwrite_file cv cam_id) filepath d;
          ev1 = [CallImwrite filepath success]
      in case success of
           Raise e \<Rightarrow> (Raised e, ev1, d1)
         | Ret False \<Rightarrow> (Fallthrough, ev1 @ [Log ERROR (ImwriteFailed filepath)], d1)
         | Ret True \<Rightarrow>
             (case d1 filepath of
                None \<Rightarrow> (Fallthrough, ev1 @ [Log ERROR (FileNotCreated filepath)], d1)
              | Some file_size \<Rightarrow>
                  if 100 < file_size then
                    (let ev2 = ev1 @ [Log SUCCESS (Captured filename file_size)];
                         released = cap_release cv cam_id Saved;
                         ev3 = ev2 @ [CallRelease cam_id released]
                     in case released of
                          Raise e \<Rightarrow> (Raised e, ev3, d1)
                        | Ret u \<Rightarrow>
                            (let destroyed = destroyAllWindows cv cam_id;
                                 ev4 = ev3 @ [CallDestroyAllWindows destroyed]
                             in case destroyed of
                                  Raise e \<Rightarrow> (Raised e, ev4, d1)
                                | Ret u' \<Rightarrow>
                                    (let ev5 = ev4 @ [Sleep 100];
                                         d2 = (if vanishes env cam_id
                                               then d1(filepath := None) else d1)
                                     in if d2 filepath \<noteq> None
                                        then (Return True, ev5, d2)
                                        else (Fallthrough,
                                              ev5 @ [Log WARNING (FileDisappeared filepath)],
                                              d2))))
                  else (Fallthrough, ev1 @ [Log WARNING (FileTooSmall filepath file_size)], d1)))"

text \<open>The inner \<open>try\<close> with its handlers, lines 619-650: \<open>except self.cv2.error\<close>, then
  \<open>except Exception\<close>, which also catches a \<open>MemoryError\<close>.\<close>

definition save_image ::
  "cv2_module \<Rightarrow> environment \<Rightarrow> nat \<Rightarrow> string \<Rightarrow> string \<Rightarrow> disk \<Rightarrow> flow \<times> event list \<times> disk"
where
  "save_image cv env cam_id filename filepath d =
     (case save_body cv env cam_id filename filepath d of
        (fl, evs, d1) \<Rightarrow>
          (case fl of
             Raised CvError \<Rightarrow> (Fallthrough, evs @ [Log ERROR OpenCVWriteError], d1)
           | Raised e \<Rightarrow> (Fallthrough, evs @ [Log ERROR (FileSaveError e)], d1)
           | _ \<Rightarrow> (fl, evs, d1)))"

text \<open>A call of \<open>cap.release()\<close> outside any handler of its own, followed by \<open>fl\<close>.\<close>

definition release_then ::
  "cv2_module \<Rightarrow> nat \<Rightarrow> site \<Rightarrow> flow \<Rightarrow> flow \<times> event list"
where
  "release_then cv cam_id s fl =
     (case cap_release cv cam_id s of
        Raise e \<Rightarrow> (Raised e, [CallRelease cam_id (Raise e)])
      | Ret u \<Rightarrow> (fl, [CallRelease cam_id (Ret u)]))"

text \<open>
  The body of the outer \<open>try\<close>, lines 555-653. The boolean of the result says whether
  \<open>cap\<close> was assigned (it stays \<open>None\<close> when the constructor raises). A
  \<open>cv2.VideoCapture\<close> object is always truthy, so the \<open>if cap:\<close> of line 564 is taken.
  What \<open>os.makedirs\<close> does is discarded by its \<open>except: pass\<close>.
\<close>

definition try_body ::
  "cv2_module \<Rightarrow> camera_capture \<Rightarrow> environment \<Rightarrow> nat \<Rightarrow> disk
     \<Rightarrow> flow \<times> bool \<times> event list \<times> disk"
where
  "try_body cv self env cam_id d =
     (let ev0 = [Log DEBUG (TryingCamera cam_id)];
          cap = VideoCapture cv cam_id;
          ev1 = ev0 @ [CallVideoCapture cam_id cap]
      in case cap of
           Raise e \<Rightarrow> (Raised e, False, ev1, d)
         | Ret False \<Rightarrow>
             (case release_then cv cam_id NotOpened Continue of
                (fl, evs) \<Rightarrow>
                  (fl, True, ev1 @ [Log DEBUG (CouldNotBeOpened cam_id)] @ evs, d))
         | Ret True \<Rightarrow>
             (let buffered = cap_set cv cam_id;
                  ev2 = ev1 @ [CallSet cam_id buffered]
              in case buffered of
                   Raise e \<Rightarrow> (Raised e, True, ev2, d)
                 | Ret u \<Rightarrow>
                     (case test_camera cv cam_id 3 0 of
                        (test_success, k, tevs) \<Rightarrow>
                          if \<not> test_success then
                            (case release_then cv cam_id TestFailed Continue of
                               (fl, evs) \<Rightarrow>
                                 (fl, True,
                                  ev2 @ tevs @ [Log DEBUG (CameraTestFailed cam_id)] @ evs, d))
                          else
                            (case capture_frame cv cam_id 3 k (None, None) of
                               (rf, cevs) \<Rightarrow>
                                 (let ev3 = ev2 @ tevs @ [Sleep 100] @ cevs
                                  in if no_frame rf then
                                       (case release_then cv cam_id CaptureFailed Continue of
                                          (fl, evs) \<Rightarrow>
                                            (fl, True,
                                             ev3 @ [Log DEBUG (CameraCaptureFailed cam_id)] @ evs,
                                             d))
                                     else
                                       (let filename = generate_filename_safe self (clock env cam_id);
                                            filepath = path_join (output_dir self) filename;
                                            ev4 = ev3 @ [CallMakedirs (dirname filepath)]
                                        in case save_image cv env cam_id filename filepath d of
                                             (Return b, sevs, d1) \<Rightarrow>
                                               (Return b, True, ev4 @ sevs, d1)
                                           | (fl, sevs, d1) \<Rightarrow>
                                               (case release_then cv cam_id AfterSave Fallthrough of
                                                  (fl', evs) \<Rightarrow>
                                                    (fl', True, ev4 @ sevs @ evs, d1))))))))"

text \<open>What one iteration of the \<open>for\<close> loop tells the loop.\<close>

datatype cycle_result = Returned bool | NextCamera

text \<open>
  The handlers of the outer \<open>try\<close>, lines 655-661, in their order:
  \<open>except self.cv2.error\<close>, \<open>except MemoryError\<close> (\<open>return False\<close>) and
  \<open>except Exception\<close>. Each logs one entry at level \<open>ERROR\<close>.
\<close>

definition handlers :: "nat \<Rightarrow> flow \<Rightarrow> cycle_result \<times> event list" where
  "handlers cam_id fl =
     (case fl of
        Raised CvError \<Rightarrow> (NextCamera, [Log ERROR (OpenCVError cam_id)])
      | Raised MemoryError \<Rightarrow> (Returned False, [Log ERROR (MemoryErrorOn cam_id)])
      | Raised OtherException \<Rightarrow>
          (NextCamera, [Log ERROR (UnexpectedError cam_id OtherException)])
      | Return b \<Rightarrow> (Returned b, [])
      | Continue \<Rightarrow> (NextCamera, [])
      | Fallthrough \<Rightarrow> (NextCamera, []))"

text \<open>
  The \<open>finally\<close> block, lines 662-668: \<open>cap.release()\<close> inside
  \<open>try ... except: pass\<close>, when \<open>cap\<close> was assigned.
\<close>

definition cleanup :: "cv2_module \<Rightarrow> nat \<Rightarrow> bool \<Rightarrow> event list" where
  "cleanup cv cam_id cap_assigned =
     (if cap_assigned then [CallRelease cam_id (cap_release cv cam_id Cleanup)] else [])"

text \<open>One iteration of the loop, lines 551-668: the body, the handlers, the \<open>finally\<close>
  block.\<close>

definition device_cycle ::
  "cv2_module \<Rightarrow> camera_capture \<Rightarrow> environment \<Rightarrow> nat \<Rightarrow> disk
     \<Rightarrow> cycle_result \<times> event list \<times> disk"
where
  "device_cycle cv self env cam_id d =
     (case try_body cv self env cam_id d of
        (fl, cap_assigned, evs, d1) \<Rightarrow>
          (case handlers cam_id fl of
             (res, hevs) \<Rightarrow> (res, evs @ hevs @ cleanup cv cam_id cap_assigned, d1)))"

text \<open>
  The \<open>for\<close> loop over the camera indices still to try, with the counter
  \<open>cameras_tried\<close>, and the two statements after the loop (lines 670-671).
\<close>

fun try_cameras ::
  "cv2_module \<Rightarrow> camera_capture \<Rightarrow> environment \<Rightarrow> nat list \<Rightarrow> nat \<Rightarrow> disk
     \<Rightarrow> bool \<times> event list \<times> disk"
where
  "try_cameras cv self env [] cameras_tried d =
     (False, [Log WARNING (NoCamerasAvailable cameras_tried)], d)"
| "try_cameras cv self env (cam_id # rest) cameras_tried d =
     (case device_cycle cv self env cam_id d of
        (Returned b, evs, d1) \<Rightarrow> (b, evs, d1)
      | (NextCamera, evs, d1) \<Rightarrow>
          (case try_cameras cv self env rest (Suc cameras_tried) d1 of
             (b, evs', d2) \<Rightarrow> (b, evs @ evs', d2)))"

definition max_cameras :: nat where
  "max_cameras = 5"

text \<open>
  \<open>capture\<close>: the result, the events of the run, and the disk afterwards.
  \<open>not self.modules_available.get('cv2')\<close> holds when the key is missing or false.
\<close>

definition capture :: "camera_capture \<Rightarrow> environment \<Rightarrow> disk \<Rightarrow> bool \<times> event list \<times> disk" where
  "capture self env d =
     (let ev0 = [Log INFO StartingCapture]
      in if modules_available self ''cv2'' \<noteq> Some True \<or> cv2 self = None
         then (False, ev0 @ [Log ERROR OpenCVNotAvailable, Log INFO InstallHint], d)
         else (case cv2 self of
                 Some cv \<Rightarrow>
                   (case try_cameras cv self env [0..<max_cameras] 0 d of
                      (b, evs, d1) \<Rightarrow> (b, ev0 @ evs, d1))
               | None \<Rightarrow> (False, ev0, d)))"

section \<open>Auxiliary notions\<close>

text \<open>The path \<open>os.path.join(self.output_dir, filename)\<close> of the cycle of camera \<open>i\<close>
  (lines 609-610).\<close>

definition filepath_of :: "camera_capture \<Rightarrow> environment \<Rightarrow> nat \<Rightarrow> string" where
  "filepath_of self env i = path_join (output_dir self) (generate_filename_safe self (clock env i))"

text \<open>The variables \<open>ret, frame\<close> of the capture loop after one more call of
  \<open>cap.read()\<close>: assigned when the call returns, kept when it raises.\<close>

definition next_rf :: "(bool \<times> frame) outcome \<Rightarrow> bool option \<times> frame \<Rightarrow> bool option \<times> frame" where
  "next_rf r rf = (case r of Ret (ret, frame) \<Rightarrow> (Some ret, frame) | Raise e \<Rightarrow> rf)"

text \<open>Events that one iteration for camera \<open>i\<close> may emit after its constructor call: no
  further constructor call, and releases of camera \<open>i\<close> only.\<close>

fun quiet :: "nat \<Rightarrow> event \<Rightarrow> bool" where
  "quiet i (CallVideoCapture j r) = False"
| "quiet i (CallRelease j r) = (j = i)"
| "quiet i e = True"

text \<open>
  A sequence of events, started with the handles \<open>H\<close> open, keeps at most one handle
  open at each point and calls the constructor only when none is open.
\<close>

fun disciplined :: "nat list \<Rightarrow> event list \<Rightarrow> bool" where
  "disciplined H [] = (length H \<le> 1)"
| "disciplined H (e # es) =
     (length H \<le> 1 \<and> (is_open_attempt e \<longrightarrow> H = []) \<and> disciplined (step_open H e) es)"

text \<open>A scripted environment: the answers in order, then a default.\<close>

definition script :: "'a list \<Rightarrow> 'a \<Rightarrow> nat \<Rightarrow> 'a" where
  "script xs dflt i = (if i < length xs then xs ! i else dflt)"

text \<open>Events that neither acquire nor release a device.\<close>

fun inert :: "event \<Rightarrow> bool" where
  "inert (CallVideoCapture i r) = False"
| "inert (CallRelease i r) = False"
| "inert e = True"

text \<open>A clock reading within the ranges of the calendar.\<close>

definition well_formed_clock :: "clock_reading \<Rightarrow> bool" where
  "well_formed_clock t =
     (tm_year t < 10000 \<and> tm_mon t < 100 \<and> tm_mday t < 100 \<and> tm_hour t < 100 \<and>
      tm_min t < 100 \<and> tm_sec t < 100 \<and>
      (case microsecond t of Ret us \<Rightarrow> us < 1000000 | Raise e \<Rightarrow> True))"



section \<open>Concrete environments\<close>

text \<open>A read that returns a 640 x 480 colour frame.\<close>

definition good_frame :: "(bool \<times> frame) outcome" where
  "good_frame = Ret (True, Some 921600)"

text \<open>An OpenCV module in which every camera opens, every read returns a frame, and every
  write leaves a file of 15000 bytes.\<close>

definition working_cv2 :: cv2_module where
  "working_cv2 =
     \<lparr>VideoCapture = (\<lambda>i. Ret True), cap_set = (\<lambda>i. Ret ()),
      cap_read = (\<lambda>i k. good_frame), cap_release = (\<lambda>i s. Ret ()),
      imwrite = (\<lambda>i. Ret True), imwrite_file = (\<lambda>i. Some 15000),
      destroyAllWindows = (\<lambda>i. Ret ())\<rparr>"

text \<open>1 January 2024, 12:00:00.000.\<close>

definition noon :: clock_reading where
  "noon = \<lparr>tm_year = 2024, tm_mon = 1, tm_mday = 1, tm_hour = 12, tm_min = 0, tm_sec = 0,
           microsecond = Ret 0\<rparr>"

text \<open>The clock stands at \<open>noon\<close> and nobody removes the saved file.\<close>

definition still_env :: environment where
  "still_env = \<lparr>clock = (\<lambda>i. noon), vanishes = (\<lambda>i. False)\<rparr>"

text \<open>The object after \<open>__init__\<close> on host \<open>host\<close> for user \<open>alice\<close>, with the
  OpenCV module given, or without one.\<close>

definition alice :: "cv2_module option \<Rightarrow> camera_capture" where
  "alice cv =
     \<lparr>output_dir = ''camshots'', hostname = ''host'', mac = ''aa-bb-cc-dd-ee-ff'',
      username = ''alice'', cv2 = cv, modules_available = [''cv2'' \<mapsto> (cv \<noteq> None)]\<rparr>"

text \<open>The first read of a handle raises, the second returns no frame, the later ones
  succeed.\<close>

definition flaky_cv2 :: cv2_module where
  "flaky_cv2 =
     working_cv2\<lparr>cap_read := \<lambda>i. script [Raise OtherException, Ret (False, None)] good_frame\<rparr>"

text \<open>No camera opens; the constructor raises \<open>cv2.error\<close> for index 1.\<close>

definition no_camera_cv2 :: cv2_module where
  "no_camera_cv2 =
     working_cv2\<lparr>VideoCapture := script [Ret False, Raise CvError] (Ret False)\<rparr>"

text \<open>Camera 0 opens and delivers frames, \<open>cv2.imwrite\<close> raises a
  \<open>PermissionError\<close>; the constructor raises \<open>cv2.error\<close> for index 1 and the other
  cameras do not open.\<close>

definition write_denied_cv2 :: cv2_module where
  "write_denied_cv2 =
     working_cv2\<lparr>VideoCapture := script [Ret True, Raise CvError] (Ret False),
                 imwrite := (\<lambda>i. Raise OtherException), imwrite_file := (\<lambda>i. None)\<rparr>"

text \<open>The first read of a handle returns a frame, every later one returns
  \<open>(False, None)\<close>.\<close>

definition blind_cv2 :: cv2_module where
  "blind_cv2 = working_cv2\<lparr>cap_read := \<lambda>i. script [good_frame] (Ret (False, None))\<rparr>"

text \<open>The write for camera 0 reports success and leaves a file of exactly 100 bytes; the
  later writes leave 15000 bytes.\<close>

definition truncating_cv2 :: cv2_module where
  "truncating_cv2 = working_cv2\<lparr>imwrite_file := script [Some 100] (Some 15000)\<rparr>"

text \<open>The \<open>cap.release()\<close> of the \<open>finally\<close> block raises \<open>cv2.error\<close>.\<close>

definition sticky_cv2 :: cv2_module where
  "sticky_cv2 =
     working_cv2\<lparr>cap_release := \<lambda>i s. if s = Cleanup then Raise CvError else Ret ()\<rparr>"

text \<open>Camera 0 does not open. Camera 1 opens and its first read returns a frame; each
  later read on it raises \<open>MemoryError\<close>. The other cameras work.\<close>

definition oom_cv2 :: cv2_module where
  "oom_cv2 =
     working_cv2\<lparr>VideoCapture := script [Ret False] (Ret True),
                 cap_read := script [\<lambda>k. good_frame, script [good_frame] (Raise MemoryError)]
                               (\<lambda>k. good_frame)\<rparr>"


text \<open>A user name that contains the control character BEL (0x07).\<close>

definition bel_user :: camera_capture where
  "bel_user = (alice None)\<lparr>username := ''al'' @ [CHR 0x07] @ ''ice''\<rparr>"

section \<open>The two read loops\<close>

lemma no_frame_after_read: "no_frame (Some ret, frame) = (\<not> frame_ok ret frame)"
  by (cases ret; cases frame) (auto simp: no_frame_def frame_ok_def)

lemma no_frame_initially: "no_frame (None, None)"
  by (simp add: no_frame_def)

lemma no_frame_next_rf: "no_frame rf \<Longrightarrow> no_frame (next_rf r rf) = (\<not> read_ok r)"
  by (cases r) (auto simp: next_rf_def read_ok_def no_frame_after_read)

lemma test_camera_step_bad:
  "\<not> read_ok (cap_read cv i k) \<Longrightarrow>
   test_camera cv i (Suc n) k =
     (fst (test_camera cv i n (Suc k)), fst (snd (test_camera cv i n (Suc k))),
      CallRead i (cap_read cv i k) # Sleep 100 # snd (snd (test_camera cv i n (Suc k))))"
  by (cases "cap_read cv i k") (auto simp: read_ok_def frame_ok_def split: prod.splits)

lemma test_camera_step_ok:
  "read_ok (cap_read cv i k) \<Longrightarrow>
   test_camera cv i (Suc n) k = (True, Suc k, [CallRead i (cap_read cv i k)])"
  by (cases "cap_read cv i k") (auto simp: read_ok_def frame_ok_def split: prod.splits)

lemma capture_frame_step_bad:
  "\<not> read_ok (cap_read cv i k) \<Longrightarrow>
   capture_frame cv i (Suc n) k rf =
     (fst (capture_frame cv i n (Suc k) (next_rf (cap_read cv i k) rf)),
      CallRead i (cap_read cv i k) # Sleep 50 #
      snd (capture_frame cv i n (Suc k) (next_rf (cap_read cv i k) rf)))"
  by (cases "cap_read cv i k") (auto simp: read_ok_def next_rf_def frame_ok_def split: prod.splits)

lemma capture_frame_step_ok:
  "read_ok (cap_read cv i k) \<Longrightarrow>
   capture_frame cv i (Suc n) k rf =
     (next_rf (cap_read cv i k) rf, [CallRead i (cap_read cv i k)])"
  by (cases "cap_read cv i k") (auto simp: read_ok_def next_rf_def frame_ok_def split: prod.splits)

declare test_camera.simps(2) [simp del]
declare capture_frame.simps(2) [simp del]

lemma bad_reads_Suc:
  "(\<forall>j<Suc A. \<not> read_ok (cap_read cv i (k + j))) =
   (\<not> read_ok (cap_read cv i k) \<and> (\<forall>j<A. \<not> read_ok (cap_read cv i (Suc k + j))))"
  by (auto simp: less_Suc_eq_0_disj)

lemma upt_shift: "map f [0..<Suc m] = f 0 # map (\<lambda>j. f (Suc j)) [0..<m]"
  by (simp add: upt_conv_Cons map_Suc_upt [symmetric] del: upt_Suc)

lemma test_camera_reads_le:
  "length (filter is_read (snd (snd (test_camera cv i A k)))) \<le> A"
proof (induction A arbitrary: k)
  case 0
  then show ?case by simp
next
  case (Suc A)
  show ?case
  proof (cases "read_ok (cap_read cv i k)")
    case True
    then show ?thesis by (simp add: test_camera_step_ok)
  next
    case False
    with Suc.IH [of "Suc k"] show ?thesis by (simp add: test_camera_step_bad)
  qed
qed

lemma test_camera_first_ok:
  "m < A \<Longrightarrow> \<forall>j<m. \<not> read_ok (cap_read cv i (k + j)) \<Longrightarrow> read_ok (cap_read cv i (k + m)) \<Longrightarrow>
   test_camera cv i A k =
     (True, Suc (k + m),
      concat (map (\<lambda>j. [CallRead i (cap_read cv i (k + j)), Sleep 100]) [0..<m]) @
      [CallRead i (cap_read cv i (k + m))])"
proof (induction A arbitrary: k m)
  case 0
  then show ?case by simp
next
  case (Suc A)
  show ?case
  proof (cases m)
    case 0
    with Suc.prems show ?thesis by (simp add: test_camera_step_ok)
  next
    case (Suc m')
    from Suc.prems(2) have bad: "\<not> read_ok (cap_read cv i k)"
      and rest: "\<forall>j<m'. \<not> read_ok (cap_read cv i (Suc k + j))"
      unfolding \<open>m = Suc m'\<close> bad_reads_Suc by simp_all
    have "test_camera cv i A (Suc k) =
       (True, Suc (Suc k + m'),
        concat (map (\<lambda>j. [CallRead i (cap_read cv i (Suc k + j)), Sleep 100]) [0..<m']) @
        [CallRead i (cap_read cv i (Suc k + m'))])"
      using Suc.prems(1,3) rest unfolding \<open>m = Suc m'\<close> by (intro Suc.IH) simp_all
    with bad show ?thesis
      unfolding \<open>m = Suc m'\<close> upt_shift by (simp add: test_camera_step_bad)
  qed
qed

lemma test_camera_all_bad:
  "\<forall>j<A. \<not> read_ok (cap_read cv i (k + j)) \<Longrightarrow>
   test_camera cv i A k =
     (False, k + A, concat (map (\<lambda>j. [CallRead i (cap_read cv i (k + j)), Sleep 100]) [0..<A]))"
proof (induction A arbitrary: k)
  case 0
  then show ?case by simp
next
  case (Suc A)
  from Suc.prems have bad: "\<not> read_ok (cap_read cv i k)"
    and rest: "\<forall>j<A. \<not> read_ok (cap_read cv i (Suc k + j))"
    unfolding bad_reads_Suc by simp_all
  from Suc.IH [OF rest] bad show ?case
    unfolding upt_shift by (simp add: test_camera_step_bad)
qed


lemma capture_frame_no_frame_iff:
  "no_frame rf \<Longrightarrow>
   no_frame (fst (capture_frame cv i A k rf)) = (\<forall>j<A. \<not> read_ok (cap_read cv i (k + j)))"
proof (induction A arbitrary: k rf)
  case 0
  then show ?case by simp
next
  case (Suc A)
  show ?case
  proof (cases "read_ok (cap_read cv i k)")
    case True
    with Suc.prems show ?thesis
      unfolding bad_reads_Suc by (simp add: capture_frame_step_ok no_frame_next_rf)
  next
    case False
    with Suc.prems have "no_frame (next_rf (cap_read cv i k) rf)"
      by (simp add: no_frame_next_rf)
    from Suc.IH [OF this, of "Suc k"] False show ?thesis
      unfolding bad_reads_Suc by (simp add: capture_frame_step_bad)
  qed
qed

lemma capture_frame_all_bad_events:
  "\<forall>j<A. \<not> read_ok (cap_read cv i (k + j)) \<Longrightarrow>
   snd (capture_frame cv i A k rf) =
     concat (map (\<lambda>j. [CallRead i (cap_read cv i (k + j)), Sleep 50]) [0..<A])"
proof (induction A arbitrary: k rf)
  case 0
  then show ?case by simp
next
  case (Suc A)
  from Suc.prems have bad: "\<not> read_ok (cap_read cv i k)"
    and rest: "\<forall>j<A. \<not> read_ok (cap_read cv i (Suc k + j))"
    unfolding bad_reads_Suc by simp_all
  from Suc.IH [OF rest] bad show ?case
    unfolding upt_shift by (simp add: capture_frame_step_bad)
qed

lemma test_camera_quiet: "list_all (quiet i) (snd (snd (test_camera cv i A k)))"
proof (induction A arbitrary: k)
  case 0
  then show ?case by simp
next
  case (Suc A)
  then show ?case
    by (cases "read_ok (cap_read cv i k)") (simp_all add: test_camera_step_ok test_camera_step_bad)
qed

lemma capture_frame_quiet: "list_all (quiet i) (snd (capture_frame cv i A k rf))"
proof (induction A arbitrary: k rf)
  case 0
  then show ?case by simp
next
  case (Suc A)
  then show ?case
    by (cases "read_ok (cap_read cv i k)")
      (simp_all add: capture_frame_step_ok capture_frame_step_bad)
qed

section \<open>Saving\<close>

lemma save_body_Return:
  "save_body cv env i filename filepath d = (Return b, evs, d1) \<Longrightarrow>
   b \<and> imwrite cv i = Ret True \<and> (\<exists>n. d1 filepath = Some n \<and> 100 < n)"
  by (auto simp: save_body_def Let_def split: outcome.splits bool.splits option.splits if_splits)

lemma save_image_Return:
  "save_image cv env i filename filepath d = (Return b, evs, d1) \<Longrightarrow>
   b \<and> imwrite cv i = Ret True \<and> (\<exists>n. d1 filepath = Some n \<and> 100 < n)"
  unfolding save_image_def
  by (auto split: prod.splits flow.splits exn.splits dest: save_body_Return)

lemma save_body_unverified:
  assumes "imwrite cv i = Ret True"
    and "case write_file (imwrite_file cv i) filepath d filepath of None \<Rightarrow> True | Some n \<Rightarrow> n \<le> 100"
  shows "save_image cv env i filename filepath d =
     (Fallthrough,
      [CallImwrite filepath (Ret True),
       case write_file (imwrite_file cv i) filepath d filepath of
         None \<Rightarrow> Log ERROR (FileNotCreated filepath)
       | Some n \<Rightarrow> Log WARNING (FileTooSmall filepath n)],
      write_file (imwrite_file cv i) filepath d)"
  using assms unfolding save_image_def save_body_def Let_def
  by (auto split: option.splits)

lemma save_image_success:
  assumes "imwrite cv i = Ret True" and "imwrite_file cv i = Some n" and "100 < n"
    and "cap_release cv i Saved = Ret ()" and "destroyAllWindows cv i = Ret ()"
    and "\<not> vanishes env i"
  shows "save_image cv env i filename filepath d =
     (Return True,
      [CallImwrite filepath (Ret True), Log SUCCESS (Captured filename n),
       CallRelease i (Ret ()), CallDestroyAllWindows (Ret ()), Sleep 100],
      d(filepath \<mapsto> n))"
  using assms unfolding save_image_def save_body_def Let_def write_file_def
  by auto

section \<open>The body of one iteration\<close>

lemma try_body_Return:
  "try_body cv self env i d = (Return b, c, evs, d1) \<Longrightarrow>
   b \<and> imwrite cv i = Ret True \<and> (\<exists>n. d1 (filepath_of self env i) = Some n \<and> 100 < n)"
  unfolding try_body_def filepath_of_def Let_def
  by (auto split: outcome.splits bool.splits prod.splits if_splits flow.splits
           simp: release_then_def dest: save_image_Return)

lemma handlers_Returned_True: "handlers i fl = (Returned True, hevs) \<Longrightarrow> fl = Return True"
  by (auto simp: handlers_def split: flow.splits exn.splits)

lemma device_cycle_Returned_True:
  "device_cycle cv self env i d = (Returned True, evs, d1) \<Longrightarrow>
   imwrite cv i = Ret True \<and> (\<exists>n. d1 (filepath_of self env i) = Some n \<and> 100 < n)"
  unfolding device_cycle_def
  by (auto split: prod.splits dest!: handlers_Returned_True try_body_Return)

lemma try_cameras_True:
  "try_cameras cv self env ids t d = (True, evs, d1) \<Longrightarrow>
   \<exists>i\<in>set ids. imwrite cv i = Ret True \<and> (\<exists>n. d1 (filepath_of self env i) = Some n \<and> 100 < n)"
proof (induction ids arbitrary: t d evs)
  case Nil
  then show ?case by simp
next
  case (Cons i ids)
  obtain res cevs d' where c: "device_cycle cv self env i d = (res, cevs, d')"
    by (cases "device_cycle cv self env i d") auto
  show ?case
  proof (cases res)
    case (Returned b)
    with Cons.prems c have "device_cycle cv self env i d = (Returned True, evs, d1)" by simp
    from device_cycle_Returned_True [OF this] show ?thesis by simp
  next
    case NextCamera
    with Cons.prems c obtain evs' where
      "try_cameras cv self env ids (Suc t) d' = (True, evs', d1)"
      by (auto split: prod.splits)
    from Cons.IH [OF this] show ?thesis by auto
  qed
qed

text \<open>
  Claim C1. \<open>capture\<close> returns \<open>True\<close> only if a camera index \<open>i\<close> exists whose
  \<open>cv2.imwrite\<close> reported success and whose file is on the disk when \<open>capture\<close>
  returns, with a size above 100 bytes. And when a camera has opened, passed validation and
  delivered a frame, and \<open>cv2.imwrite\<close> returns \<open>True\<close> but the file is missing or
  has at most 100 bytes, the iteration ends without a result and the loop goes on with the
  next index; this second part is for a \<open>cap.release()\<close> of line 653 that returns.
\<close>

theorem success_only_for_verified_file:
  "(fst (capture self env d) = True \<longrightarrow>
      (\<exists>cv i n. cv2 self = Some cv \<and> i < max_cameras \<and> imwrite cv i = Ret True \<and>
         snd (snd (capture self env d)) (filepath_of self env i) = Some n \<and> 100 < n)) \<and>
   (VideoCapture cv i = Ret True \<and> cap_set cv i = Ret () \<and>
    fst (test_camera cv i 3 0) \<and>
    \<not> no_frame (fst (capture_frame cv i 3 (fst (snd (test_camera cv i 3 0))) (None, None))) \<and>
    imwrite cv i = Ret True \<and>
    (case write_file (imwrite_file cv i) (filepath_of self env i) d (filepath_of self env i) of
       None \<Rightarrow> True | Some n \<Rightarrow> n \<le> 100) \<and>
    cap_release cv i AfterSave = Ret () \<longrightarrow>
      fst (device_cycle cv self env i d) = NextCamera \<and>
      fst (try_cameras cv self env (i # rest) t d) =
        fst (try_cameras cv self env rest (Suc t) (snd (snd (device_cycle cv self env i d)))))"
proof (intro conjI impI)
  assume ok: "fst (capture self env d) = True"
  then obtain cv where cv: "cv2 self = Some cv"
    by (cases "cv2 self") (auto simp: capture_def)
  obtain b evs d1 where t: "try_cameras cv self env [0..<max_cameras] 0 d = (b, evs, d1)"
    by (cases "try_cameras cv self env [0..<max_cameras] 0 d") auto
  from ok cv t have b: "b" and d1: "snd (snd (capture self env d)) = d1"
    by (auto simp: capture_def Let_def split: if_splits)
  from try_cameras_True [of cv self env "[0..<max_cameras]" 0 d evs d1] t b
  obtain i n where "i < max_cameras" "imwrite cv i = Ret True"
    "d1 (filepath_of self env i) = Some n" "100 < n"
    by auto
  with cv d1 show "\<exists>cv i n. cv2 self = Some cv \<and> i < max_cameras \<and> imwrite cv i = Ret True \<and>
         snd (snd (capture self env d)) (filepath_of self env i) = Some n \<and> 100 < n"
    by auto
next
  assume a: "VideoCapture cv i = Ret True \<and> cap_set cv i = Ret () \<and>
    fst (test_camera cv i 3 0) \<and>
    \<not> no_frame (fst (capture_frame cv i 3 (fst (snd (test_camera cv i 3 0))) (None, None))) \<and>
    imwrite cv i = Ret True \<and>
    (case write_file (imwrite_file cv i) (filepath_of self env i) d (filepath_of self env i) of
       None \<Rightarrow> True | Some n \<Rightarrow> n \<le> 100) \<and>
    cap_release cv i AfterSave = Ret ()"
  then have s: "save_image cv env i (generate_filename_safe self (clock env i))
      (filepath_of self env i) d =
     (Fallthrough,
      [CallImwrite (filepath_of self env i) (Ret True),
       case write_file (imwrite_file cv i) (filepath_of self env i) d (filepath_of self env i) of
         None \<Rightarrow> Log ERROR (FileNotCreated (filepath_of self env i))
       | Some n \<Rightarrow> Log WARNING (FileTooSmall (filepath_of self env i) n)],
      write_file (imwrite_file cv i) (filepath_of self env i) d)"
    by (intro save_body_unverified) simp_all
  from a s show c: "fst (device_cycle cv self env i d) = NextCamera"
    unfolding device_cycle_def try_body_def Let_def
    by (auto simp: filepath_of_def [symmetric] release_then_def handlers_def split: prod.splits)
  then show "fst (try_cameras cv self env (i # rest) t d) =
        fst (try_cameras cv self env rest (Suc t) (snd (snd (device_cycle cv self env i d))))"
    by (cases "device_cycle cv self env i d") (simp split: prod.splits)
qed

lemma upt_0_3: "[0..<3] = [0, 1, 2]"
  by (simp add: upt_rec)

section \<open>Handles held\<close>

lemma no_acquire_step: "\<forall>j. e \<noteq> CallVideoCapture j (Ret True) \<Longrightarrow> step_open [] e = []"
  by (cases "([]::nat list, e)" rule: step_open.cases) auto

lemma holding_no_acquire:
  "\<forall>e\<in>set evs. \<forall>j. e \<noteq> CallVideoCapture j (Ret True) \<Longrightarrow> holding evs = []"
  unfolding holding_def
  by (induction evs rule: rev_induct) (simp_all add: no_acquire_step)

lemma holding_prefix_no_acquire:
  assumes "\<forall>e\<in>set evs. \<forall>j. e \<noteq> CallVideoCapture j (Ret True)" and "prefix p evs"
  shows "holding p = []"
proof -
  from assms(2) have "set p \<subseteq> set evs" by (rule set_mono_prefix)
  with assms(1) show ?thesis by (intro holding_no_acquire) blast
qed

section \<open>A camera that does not open\<close>

lemma device_cycle_not_opened:
  assumes "VideoCapture cv i = Ret False" and "cap_release cv i NotOpened \<noteq> Raise MemoryError"
  shows "\<exists>evs. device_cycle cv self env i d = (NextCamera, evs, d) \<and>
           open_attempts evs = [CallVideoCapture i (VideoCapture cv i)] \<and>
           (\<forall>e\<in>set evs. \<forall>j. e \<noteq> CallVideoCapture j (Ret True))"
proof (cases "cap_release cv i NotOpened")
  case (Ret u)
  with assms show ?thesis
    unfolding device_cycle_def try_body_def Let_def
    by (simp add: release_then_def handlers_def cleanup_def open_attempts_def)
next
  case (Raise e)
  with assms show ?thesis
    unfolding device_cycle_def try_body_def Let_def
    by (cases e) (simp_all add: release_then_def handlers_def cleanup_def open_attempts_def)
qed

lemma device_cycle_open_raises:
  assumes "VideoCapture cv i = Raise e" and "e \<noteq> MemoryError"
  shows "\<exists>evs. device_cycle cv self env i d = (NextCamera, evs, d) \<and>
           open_attempts evs = [CallVideoCapture i (VideoCapture cv i)] \<and>
           (\<forall>e\<in>set evs. \<forall>j. e \<noteq> CallVideoCapture j (Ret True))"
  using assms unfolding device_cycle_def try_body_def Let_def
  by (cases e) (simp_all add: handlers_def cleanup_def open_attempts_def)

lemma try_cameras_none_open:
  assumes "\<forall>i\<in>set ids. VideoCapture cv i = Ret False \<or> VideoCapture cv i = Raise CvError \<or>
             VideoCapture cv i = Raise OtherException"
    and "\<forall>i\<in>set ids. cap_release cv i NotOpened \<noteq> Raise MemoryError"
  shows "\<exists>evs. try_cameras cv self env ids t d = (False, evs, d) \<and>
           open_attempts evs = map (\<lambda>i. CallVideoCapture i (VideoCapture cv i)) ids \<and>
           (\<forall>e\<in>set evs. \<forall>j. e \<noteq> CallVideoCapture j (Ret True))"
  using assms
proof (induction ids arbitrary: t)
  case Nil
  then show ?case by (simp add: open_attempts_def)
next
  case (Cons i ids)
  have "\<exists>evs. device_cycle cv self env i d = (NextCamera, evs, d) \<and>
           open_attempts evs = [CallVideoCapture i (VideoCapture cv i)] \<and>
           (\<forall>e\<in>set evs. \<forall>j. e \<noteq> CallVideoCapture j (Ret True))"
    using Cons.prems device_cycle_not_opened [of cv i self env d]
      device_cycle_open_raises [of cv i _ self env d]
    by (metis exn.distinct(1,5) list.set_intros(1))
  then obtain evs where c: "device_cycle cv self env i d = (NextCamera, evs, d)"
    and o: "open_attempts evs = [CallVideoCapture i (VideoCapture cv i)]"
    and q: "\<forall>e\<in>set evs. \<forall>j. e \<noteq> CallVideoCapture j (Ret True)"
    by blast
  from Cons.IH [of "Suc t"] Cons.prems obtain evs' where
    r: "try_cameras cv self env ids (Suc t) d = (False, evs', d)"
    and o': "open_attempts evs' = map (\<lambda>i. CallVideoCapture i (VideoCapture cv i)) ids"
    and q': "\<forall>e\<in>set evs'. \<forall>j. e \<noteq> CallVideoCapture j (Ret True)"
    by auto
  from c r have "try_cameras cv self env (i # ids) t d = (False, evs @ evs', d)" by simp
  moreover from o o' have "open_attempts (evs @ evs') =
      map (\<lambda>i. CallVideoCapture i (VideoCapture cv i)) (i # ids)"
    by (simp add: open_attempts_def)
  moreover from q q' have "\<forall>e\<in>set (evs @ evs'). \<forall>j. e \<noteq> CallVideoCapture j (Ret True)"
    by auto
  ultimately show ?case by blast
qed

text \<open>
  Claim C2. With OpenCV available, if each of the \<open>max_cameras = 5\<close> indices fails to
  open (the constructor returns a handle that is not opened, or raises an exception other
  than \<open>MemoryError\<close>) and no \<open>cap.release()\<close> of line 565 raises \<open>MemoryError\<close>,
  then \<open>capture\<close> returns \<open>False\<close>, the constructor is called exactly once for each
  index 0..4, in this order, five calls in all, and no device handle is open at any point
  of the run.
\<close>

theorem all_cameras_fail_to_open:
  assumes "cv2 self = Some cv" and "modules_available self ''cv2'' = Some True"
    and "\<forall>i<max_cameras. VideoCapture cv i = Ret False \<or> VideoCapture cv i = Raise CvError \<or>
           VideoCapture cv i = Raise OtherException"
    and "\<forall>i<max_cameras. cap_release cv i NotOpened \<noteq> Raise MemoryError"
  shows "fst (capture self env d) = False \<and>
         open_attempts (fst (snd (capture self env d))) =
           map (\<lambda>i. CallVideoCapture i (VideoCapture cv i)) [0..<max_cameras] \<and>
         length (open_attempts (fst (snd (capture self env d)))) = 5 \<and>
         (\<forall>p. prefix p (fst (snd (capture self env d))) \<longrightarrow> holding p = [])"
proof -
  from try_cameras_none_open [of "[0..<max_cameras]" cv self env 0 d] assms(3,4)
  obtain evs where r: "try_cameras cv self env [0..<max_cameras] 0 d = (False, evs, d)"
    and o: "open_attempts evs = map (\<lambda>i. CallVideoCapture i (VideoCapture cv i)) [0..<max_cameras]"
    and q: "\<forall>e\<in>set evs. \<forall>j. e \<noteq> CallVideoCapture j (Ret True)"
    by auto
  from assms(1,2) r have c: "capture self env d = (False, Log INFO StartingCapture # evs, d)"
    by (simp add: capture_def)
  from q have q': "\<forall>e\<in>set (Log INFO StartingCapture # evs). \<forall>j. e \<noteq> CallVideoCapture j (Ret True)"
    by simp
  from o have o': "open_attempts (Log INFO StartingCapture # evs) =
      map (\<lambda>i. CallVideoCapture i (VideoCapture cv i)) [0..<max_cameras]"
    by (simp add: open_attempts_def)
  have "length (open_attempts (Log INFO StartingCapture # evs)) = 5"
    unfolding o' by (simp add: max_cameras_def)
  moreover have "\<forall>p. prefix p (Log INFO StartingCapture # evs) \<longrightarrow> holding p = []"
    using holding_prefix_no_acquire [OF q'] by blast
  ultimately show ?thesis
    using c o' by simp
qed

text \<open>
  Claim C10. When \<open>self.modules_available.get('cv2')\<close> is not true or \<open>self.cv2\<close> is
  \<open>None\<close>, \<open>capture\<close> logs the start, one error and one hint, returns \<open>False\<close>,
  leaves the disk as it was and never calls the constructor.
\<close>

theorem capture_without_opencv:
  "modules_available self ''cv2'' \<noteq> Some True \<or> cv2 self = None \<Longrightarrow>
   capture self env d =
     (False, [Log INFO StartingCapture, Log ERROR OpenCVNotAvailable, Log INFO InstallHint], d) \<and>
   open_attempts (fst (snd (capture self env d))) = []"
  by (auto simp: capture_def open_attempts_def)

text \<open>
  Claim C5. For every attempt count \<open>A\<close> (the code uses 3), validation calls
  \<open>cap.read()\<close> at most \<open>A\<close> times. If the first \<open>m < A\<close> reads fail (return no
  frame, or raise) and the next one returns a frame, validation succeeds after exactly
  \<open>m + 1\<close> reads, with a sleep of 100 ms after each failed read; with \<open>m = A - 1\<close>
  this is the device that succeeds on its last attempt. If all \<open>A\<close> reads fail,
  validation fails.
\<close>

theorem test_camera_retries:
  "length (filter is_read (snd (snd (test_camera cv i A k)))) \<le> A \<and>
   (\<forall>m<A. (\<forall>j<m. \<not> read_ok (cap_read cv i (k + j))) \<and> read_ok (cap_read cv i (k + m)) \<longrightarrow>
      test_camera cv i A k =
        (True, Suc (k + m),
         concat (map (\<lambda>j. [CallRead i (cap_read cv i (k + j)), Sleep 100]) [0..<m]) @
         [CallRead i (cap_read cv i (k + m))])) \<and>
   ((\<forall>j<A. \<not> read_ok (cap_read cv i (k + j))) \<longrightarrow> \<not> fst (test_camera cv i A k))"
  using test_camera_reads_le [of cv i A k] test_camera_first_ok [of _ A cv i k]
    test_camera_all_bad [of A cv i k]
  by auto

section \<open>One device at a time\<close>

lemma release_then_quiet: "list_all (quiet i) (snd (release_then cv i s fl))"
  by (simp add: release_then_def split: outcome.splits)

lemma save_image_quiet: "list_all (quiet i) (fst (snd (save_image cv env i fn fp d)))"
  unfolding save_image_def save_body_def Let_def
  by (auto split: prod.splits flow.splits exn.splits outcome.splits bool.splits option.splits)

lemma handlers_quiet: "list_all (quiet i) (snd (handlers i fl))"
  by (simp add: handlers_def split: flow.splits exn.splits)

lemma try_body_shape:
  "\<exists>rest. fst (snd (snd (try_body cv self env i d))) =
            Log DEBUG (TryingCamera i) # CallVideoCapture i (VideoCapture cv i) # rest \<and>
          list_all (quiet i) rest \<and>
          fst (snd (try_body cv self env i d)) = (\<exists>b. VideoCapture cv i = Ret b)"
  unfolding try_body_def Let_def
  by (simp add: case_prod_beta test_camera_quiet capture_frame_quiet save_image_quiet
        release_then_quiet
      split: outcome.splits bool.splits flow.splits)

lemma device_cycle_shape:
  "\<exists>rest. fst (snd (device_cycle cv self env i d)) =
            Log DEBUG (TryingCamera i) # CallVideoCapture i (VideoCapture cv i) # rest \<and>
          list_all (quiet i) rest \<and>
          ((\<exists>b. VideoCapture cv i = Ret b) \<longrightarrow>
             rest \<noteq> [] \<and> last rest = CallRelease i (cap_release cv i Cleanup))"
proof -
  from try_body_shape [of cv self env i d] obtain rest where
    b: "fst (snd (snd (try_body cv self env i d))) =
          Log DEBUG (TryingCamera i) # CallVideoCapture i (VideoCapture cv i) # rest"
    and q: "list_all (quiet i) rest"
    and c: "fst (snd (try_body cv self env i d)) = (\<exists>b. VideoCapture cv i = Ret b)"
    by blast
  let ?fl = "fst (try_body cv self env i d)"
  let ?c = "fst (snd (try_body cv self env i d))"
  have e: "fst (snd (device_cycle cv self env i d)) =
      Log DEBUG (TryingCamera i) # CallVideoCapture i (VideoCapture cv i) #
      (rest @ snd (handlers i ?fl) @ cleanup cv i ?c)"
    unfolding device_cycle_def by (simp add: case_prod_beta b)
  have "list_all (quiet i) (rest @ snd (handlers i ?fl) @ cleanup cv i ?c)"
    using q by (simp add: handlers_quiet cleanup_def)
  moreover have "(\<exists>b. VideoCapture cv i = Ret b) \<longrightarrow>
      rest @ snd (handlers i ?fl) @ cleanup cv i ?c \<noteq> [] \<and>
      last (rest @ snd (handlers i ?fl) @ cleanup cv i ?c) = CallRelease i (cap_release cv i Cleanup)"
    using c by (simp add: cleanup_def)
  ultimately show ?thesis using e by blast
qed

lemma quiet_step:
  "quiet i e \<Longrightarrow> H = [] \<or> H = [i] \<Longrightarrow>
   \<not> is_open_attempt e \<and> (step_open H e = [] \<or> step_open H e = [i])"
  by (cases "(H, e)" rule: step_open.cases) auto

lemma quiet_disciplined:
  "list_all (quiet i) es \<Longrightarrow> H = [] \<or> H = [i] \<Longrightarrow>
   disciplined H es \<and> (foldl step_open H es = [] \<or> foldl step_open H es = [i])"
proof (induction es arbitrary: H)
  case Nil
  then show ?case by auto
next
  case (Cons e es)
  from Cons.prems have q: "quiet i e" and qs: "list_all (quiet i) es" by simp_all
  from quiet_step [OF q Cons.prems(2)] have n: "\<not> is_open_attempt e"
    and h: "step_open H e = [] \<or> step_open H e = [i]" by simp_all
  from Cons.IH [OF qs h] Cons.prems(2) n show ?case by auto
qed

lemma quiet_from_empty:
  "list_all (quiet i) es \<Longrightarrow> foldl step_open [] es = []"
proof (induction es)
  case Nil
  then show ?case by simp
next
  case (Cons e es)
  then have "step_open [] e = []"
    by (cases "([]::nat list, e)" rule: step_open.cases) auto
  with Cons show ?case by simp
qed

lemma disciplined_append:
  "disciplined H (xs @ ys) = (disciplined H xs \<and> disciplined (foldl step_open H xs) ys)"
proof (induction xs arbitrary: H)
  case Nil
  show ?case by (cases ys) auto
next
  case (Cons x xs)
  then show ?case by auto
qed

lemma disciplined_length: "disciplined H es \<Longrightarrow> length H \<le> 1"
  by (cases es) auto

lemma cycle_disciplined:
  assumes "cap_release cv i Cleanup = Ret ()"
  shows "disciplined [] (fst (snd (device_cycle cv self env i d))) \<and>
         foldl step_open [] (fst (snd (device_cycle cv self env i d))) = []"
proof -
  from device_cycle_shape [of cv self env i d] obtain rest where
    e: "fst (snd (device_cycle cv self env i d)) =
          Log DEBUG (TryingCamera i) # CallVideoCapture i (VideoCapture cv i) # rest"
    and q: "list_all (quiet i) rest"
    and l: "(\<exists>b. VideoCapture cv i = Ret b) \<longrightarrow>
             rest \<noteq> [] \<and> last rest = CallRelease i (cap_release cv i Cleanup)"
    by blast
  show ?thesis
  proof (cases "VideoCapture cv i = Ret True")
    case True
    with l assms have ne: "rest \<noteq> []" and la: "last rest = CallRelease i (Ret ())"
      by auto
    then have r: "rest = butlast rest @ [CallRelease i (Ret ())]"
      by (metis append_butlast_last_id)
    from q have qb: "list_all (quiet i) (butlast rest)"
      by (metis list_all_append r)
    from quiet_disciplined [OF q, of "[i]"] have d: "disciplined [i] rest" by simp
    from quiet_disciplined [OF qb, of "[i]"]
    have "foldl step_open [i] (butlast rest) = [] \<or> foldl step_open [i] (butlast rest) = [i]"
      by simp
    then have "foldl step_open [i] (butlast rest @ [CallRelease i (Ret ())]) = []"
      by auto
    with r have "foldl step_open [i] rest = []" by simp
    with d True show ?thesis unfolding e by simp
  next
    case False
    then have s: "step_open [] (CallVideoCapture i (VideoCapture cv i)) = []"
      by (cases "VideoCapture cv i") auto
    from quiet_disciplined [OF q, of "[]"] quiet_from_empty [OF q] s
    show ?thesis unfolding e by simp
  qed
qed

lemma try_cameras_disciplined:
  "\<forall>i\<in>set ids. cap_release cv i Cleanup = Ret () \<Longrightarrow>
   disciplined [] (fst (snd (try_cameras cv self env ids t d))) \<and>
   foldl step_open [] (fst (snd (try_cameras cv self env ids t d))) = []"
proof (induction ids arbitrary: t d)
  case Nil
  then show ?case by simp
next
  case (Cons i ids)
  from Cons.prems have "cap_release cv i Cleanup = Ret ()" by simp
  from cycle_disciplined [OF this, of self env d]
  have c: "disciplined [] (fst (snd (device_cycle cv self env i d)))"
    and h: "foldl step_open [] (fst (snd (device_cycle cv self env i d))) = []"
    by simp_all
  obtain res evs d1 where dc: "device_cycle cv self env i d = (res, evs, d1)"
    by (cases "device_cycle cv self env i d") auto
  show ?case
  proof (cases res)
    case (Returned b)
    with dc c h show ?thesis by simp
  next
    case NextCamera
    from Cons.IH [of "Suc t" d1] Cons.prems
    have "disciplined [] (fst (snd (try_cameras cv self env ids (Suc t) d1)))"
      and "foldl step_open [] (fst (snd (try_cameras cv self env ids (Suc t) d1))) = []"
      by simp_all
    with NextCamera dc c h show ?thesis
      by (simp add: case_prod_beta disciplined_append)
  qed
qed

lemma disciplined_prefix:
  assumes "disciplined [] evs" and "prefix p evs"
  shows "length (holding p) \<le> 1"
proof -
  from assms(2) obtain s where "evs = p @ s" by (auto simp: prefix_def)
  with assms(1) have "disciplined (foldl step_open [] p) s"
    by (simp add: disciplined_append)
  then show ?thesis unfolding holding_def by (rule disciplined_length)
qed

lemma disciplined_before_open:
  assumes "disciplined [] evs" and "prefix (p @ [CallVideoCapture i r]) evs"
  shows "holding p = []"
proof -
  from assms(2) obtain s where "evs = p @ CallVideoCapture i r # s" by (auto simp: prefix_def)
  with assms(1) have "disciplined (foldl step_open [] p) (CallVideoCapture i r # s)"
    by (simp only: disciplined_append)
  then show ?thesis unfolding holding_def by simp
qed

text \<open>
  Claim C4. In every run in which the \<open>cap.release()\<close> of the \<open>finally\<close> block
  returns when it is called, at most one device handle is open at each point of the run,
  no handle is open when the constructor is called for the next index, and none is open
  when \<open>capture\<close> returns. This covers every path of the loop, those on which a library
  call raises included.
\<close>

theorem one_device_at_a_time:
  assumes "cv2 self = Some cv" and "\<forall>i<max_cameras. cap_release cv i Cleanup = Ret ()"
  shows "(\<forall>p. prefix p (fst (snd (capture self env d))) \<longrightarrow> length (holding p) \<le> 1) \<and>
         (\<forall>p i r. prefix (p @ [CallVideoCapture i r]) (fst (snd (capture self env d))) \<longrightarrow>
            holding p = []) \<and>
         holding (fst (snd (capture self env d))) = []"
proof -
  have "disciplined [] (fst (snd (capture self env d))) \<and>
        foldl step_open [] (fst (snd (capture self env d))) = []"
  proof (cases "modules_available self ''cv2'' = Some True")
    case True
    from try_cameras_disciplined [of "[0..<max_cameras]" cv self env 0 d] assms(2)
    have "disciplined [] (fst (snd (try_cameras cv self env [0..<max_cameras] 0 d)))"
      and "foldl step_open [] (fst (snd (try_cameras cv self env [0..<max_cameras] 0 d))) = []"
      by simp_all
    with True assms(1) show ?thesis
      by (simp add: capture_def case_prod_beta)
  next
    case False
    then show ?thesis by (simp add: capture_def)
  qed
  then have dis: "disciplined [] (fst (snd (capture self env d)))"
    and fin: "holding (fst (snd (capture self env d))) = []"
    by (simp_all add: holding_def)
  from dis fin show ?thesis
    using disciplined_prefix disciplined_before_open by blast
qed

lemma inert_step: "inert e \<Longrightarrow> step_open H e = H"
  by (cases e) auto

lemma inert_foldl: "list_all inert es \<Longrightarrow> foldl step_open H es = H"
  by (induction es arbitrary: H) (simp_all add: inert_step)

lemma inert_not_release: "inert e \<Longrightarrow> \<not> is_release e \<and> \<not> is_open_attempt e"
  by (cases e) auto

lemma inert_filter:
  "list_all inert es \<Longrightarrow> filter is_release es = [] \<and> filter is_open_attempt es = []"
  by (induction es) (simp_all add: inert_not_release)

lemma test_camera_inert: "list_all inert (snd (snd (test_camera cv i A k)))"
proof (induction A arbitrary: k)
  case 0
  then show ?case by simp
next
  case (Suc A)
  then show ?case
    by (cases "read_ok (cap_read cv i k)") (simp_all add: test_camera_step_ok test_camera_step_bad)
qed

lemma capture_frame_inert: "list_all inert (snd (capture_frame cv i A k rf))"
proof (induction A arbitrary: k rf)
  case 0
  then show ?case by simp
next
  case (Suc A)
  then show ?case
    by (cases "read_ok (cap_read cv i k)")
      (simp_all add: capture_frame_step_ok capture_frame_step_bad)
qed

section \<open>The path that saves a file\<close>

lemma device_cycle_success:
  assumes "VideoCapture cv i = Ret True" and "cap_set cv i = Ret ()"
    and "test_camera cv i 3 0 = (True, k, tevs)"
    and "capture_frame cv i 3 k (None, None) = (rf, cevs)" and "\<not> no_frame rf"
    and "imwrite cv i = Ret True" and "imwrite_file cv i = Some n" and "100 < n"
    and "cap_release cv i Saved = Ret ()" and "destroyAllWindows cv i = Ret ()"
    and "\<not> vanishes env i"
  shows "device_cycle cv self env i d =
     (Returned True,
      [Log DEBUG (TryingCamera i), CallVideoCapture i (Ret True), CallSet i (Ret ())] @
      tevs @ [Sleep 100] @ cevs @
      [CallMakedirs (dirname (filepath_of self env i)),
       CallImwrite (filepath_of self env i) (Ret True),
       Log SUCCESS (Captured (generate_filename_safe self (clock env i)) n),
       CallRelease i (Ret ()), CallDestroyAllWindows (Ret ()), Sleep 100,
       CallRelease i (cap_release cv i Cleanup)],
      d(filepath_of self env i \<mapsto> n))"
  using assms(1-5) save_image_success [OF assms(6-11)]
  unfolding device_cycle_def try_body_def Let_def
  by (simp add: filepath_of_def handlers_def cleanup_def)

lemma save_image_Return_events:
  "save_image cv env i fn fp d = (Return b, sevs, d1) \<Longrightarrow>
   \<exists>n. sevs = [CallImwrite fp (Ret True), Log SUCCESS (Captured fn n),
               CallRelease i (Ret ()), CallDestroyAllWindows (Ret ()), Sleep 100]"
  unfolding save_image_def save_body_def Let_def
  by (auto split: outcome.splits bool.splits option.splits if_splits flow.splits exn.splits)

lemma release_then_flow:
  "fst (release_then cv i s fl) = fl \<or> (\<exists>e. fst (release_then cv i s fl) = Raised e)"
  by (simp add: release_then_def split: outcome.splits)

lemma try_body_Return_events:
  assumes "try_body cv self env i d = (Return b, c, evs, d1)"
  shows "\<exists>n. c \<and> evs =
      [Log DEBUG (TryingCamera i), CallVideoCapture i (Ret True), CallSet i (Ret ())] @
      snd (snd (test_camera cv i 3 0)) @ [Sleep 100] @
      snd (capture_frame cv i 3 (fst (snd (test_camera cv i 3 0))) (None, None)) @
      [CallMakedirs (dirname (filepath_of self env i)),
       CallImwrite (filepath_of self env i) (Ret True),
       Log SUCCESS (Captured (generate_filename_safe self (clock env i)) n),
       CallRelease i (Ret ()), CallDestroyAllWindows (Ret ()), Sleep 100]"
proof -
  let ?fn = "generate_filename_safe self (clock env i)"
  let ?s = "save_image cv env i ?fn (filepath_of self env i) d"
  have r: "fst (release_then cv i s fl) \<noteq> Return b" if "fl \<noteq> Return b" for s fl
    using release_then_flow [of cv i s fl] that by auto
  from assms have "fst ?s = Return b \<and> c \<and> evs =
      [Log DEBUG (TryingCamera i), CallVideoCapture i (Ret True), CallSet i (Ret ())] @
      snd (snd (test_camera cv i 3 0)) @ [Sleep 100] @
      snd (capture_frame cv i 3 (fst (snd (test_camera cv i 3 0))) (None, None)) @
      [CallMakedirs (dirname (filepath_of self env i))] @ fst (snd ?s)"
    unfolding try_body_def Let_def filepath_of_def
    by (simp add: case_prod_beta r split: outcome.splits bool.splits flow.splits if_splits)
  moreover from this have "?s = (Return b, fst (snd ?s), snd (snd ?s))"
    by (metis prod.collapse)
  from save_image_Return_events [OF this] obtain n where
    "fst (snd ?s) = [CallImwrite (filepath_of self env i) (Ret True),
       Log SUCCESS (Captured ?fn n),
       CallRelease i (Ret ()), CallDestroyAllWindows (Ret ()), Sleep 100]"
    by blast
  ultimately show ?thesis by simp
qed

lemma device_cycle_Returned_True_events:
  assumes "device_cycle cv self env i d = (Returned True, evs, d1)"
  shows "\<exists>n. evs =
      [Log DEBUG (TryingCamera i), CallVideoCapture i (Ret True), CallSet i (Ret ())] @
      snd (snd (test_camera cv i 3 0)) @ [Sleep 100] @
      snd (capture_frame cv i 3 (fst (snd (test_camera cv i 3 0))) (None, None)) @
      [CallMakedirs (dirname (filepath_of self env i)),
       CallImwrite (filepath_of self env i) (Ret True),
       Log SUCCESS (Captured (generate_filename_safe self (clock env i)) n),
       CallRelease i (Ret ()), CallDestroyAllWindows (Ret ()), Sleep 100,
       CallRelease i (cap_release cv i Cleanup)]"
proof -
  obtain fl c bevs d' where b: "try_body cv self env i d = (fl, c, bevs, d')"
    by (cases "try_body cv self env i d") auto
  with assms have h: "fst (handlers i fl) = Returned True"
    and e: "evs = bevs @ snd (handlers i fl) @ cleanup cv i c"
    unfolding device_cycle_def by (auto simp: case_prod_beta)
  from h have fl: "fl = Return True"
    by (cases "handlers i fl") (auto dest: handlers_Returned_True)
  from try_body_Return_events [OF b [unfolded fl]] e fl show ?thesis
    by (auto simp: handlers_def cleanup_def)
qed

section \<open>The cleanup release\<close>

lemma test_camera_cap_read:
  "cap_read cv' = cap_read cv \<Longrightarrow> test_camera cv' i A k = test_camera cv i A k"
proof (induction A arbitrary: k)
  case 0
  then show ?case by simp
next
  case (Suc A)
  then show ?case
    by (cases "read_ok (cap_read cv i k)") (simp_all add: test_camera_step_ok test_camera_step_bad)
qed

lemma capture_frame_cap_read:
  "cap_read cv' = cap_read cv \<Longrightarrow> capture_frame cv' i A k rf = capture_frame cv i A k rf"
proof (induction A arbitrary: k rf)
  case 0
  then show ?case by simp
next
  case (Suc A)
  then show ?case
    by (cases "read_ok (cap_read cv i k)")
      (simp_all add: capture_frame_step_ok capture_frame_step_bad)
qed

lemma test_camera_ignores_release:
  "test_camera (cv\<lparr>cap_release := f\<rparr>) i A k = test_camera cv i A k"
  by (rule test_camera_cap_read) simp

lemma capture_frame_ignores_release:
  "capture_frame (cv\<lparr>cap_release := f\<rparr>) i A k rf = capture_frame cv i A k rf"
  by (rule capture_frame_cap_read) simp

lemma release_then_ignores_cleanup:
  "s \<noteq> Cleanup \<Longrightarrow>
   release_then (cv\<lparr>cap_release := \<lambda>j s. if s = Cleanup then r else cap_release cv j s\<rparr>) i s fl =
   release_then cv i s fl"
  by (simp add: release_then_def)

lemma save_body_ignores_cleanup:
  "save_body (cv\<lparr>cap_release := \<lambda>j s. if s = Cleanup then r else cap_release cv j s\<rparr>)
     env i fn fp d = save_body cv env i fn fp d"
  unfolding save_body_def Let_def
  by (simp split: outcome.splits bool.splits option.splits)

lemma save_image_ignores_cleanup:
  "save_image (cv\<lparr>cap_release := \<lambda>j s. if s = Cleanup then r else cap_release cv j s\<rparr>)
     env i fn fp d = save_image cv env i fn fp d"
  by (simp add: save_image_def save_body_ignores_cleanup)

lemma try_body_ignores_cleanup:
  "try_body (cv\<lparr>cap_release := \<lambda>j s. if s = Cleanup then r else cap_release cv j s\<rparr>) self env i d =
   try_body cv self env i d"
proof (cases "VideoCapture cv i")
  case (Raise e)
  then show ?thesis by (simp add: try_body_def)
next
  case opened: (Ret b)
  show ?thesis
  proof (cases b)
    case False
    with opened show ?thesis
      by (simp add: try_body_def release_then_ignores_cleanup)
  next
    case True
    show ?thesis
    proof (cases "cap_set cv i")
      case (Raise e)
      with opened True show ?thesis by (simp add: try_body_def)
    next
      case buffered: (Ret u)
      obtain ok k tevs where tc: "test_camera cv i 3 0 = (ok, k, tevs)"
        by (cases "test_camera cv i 3 0") auto
      obtain rf cevs where cf: "capture_frame cv i 3 k (None, None) = (rf, cevs)"
        by (cases "capture_frame cv i 3 k (None, None)") auto
      obtain fl sevs d1 where
        sv: "save_image cv env i (generate_filename_safe self (clock env i))
               (path_join (output_dir self) (generate_filename_safe self (clock env i))) d =
             (fl, sevs, d1)"
        by (cases "save_image cv env i (generate_filename_safe self (clock env i))
               (path_join (output_dir self) (generate_filename_safe self (clock env i))) d") auto
      from opened True buffered tc cf sv show ?thesis
        by (cases fl; cases ok; cases "no_frame rf")
          (simp_all add: try_body_def Let_def test_camera_ignores_release
            capture_frame_ignores_release release_then_ignores_cleanup
            save_image_ignores_cleanup)
    qed
  qed
qed

text \<open>
  Claim C8. On the path that returns \<open>True\<close>, \<open>cap.release()\<close> is called exactly
  twice on the handle, by line 631 and by the \<open>finally\<close> block; the first call returned,
  and whatever the second does, no handle is open before it and none after it. The result of
  an iteration and the disk it leaves do not depend on what the release of the \<open>finally\<close>
  block does, raising included. On the table of open handles, a release after a release that
  returned changes nothing.
\<close>

theorem release_twice_on_success:
  "(device_cycle cv self env i d = (Returned True, evs, d1) \<longrightarrow>
      filter is_release evs =
        [CallRelease i (Ret ()), CallRelease i (cap_release cv i Cleanup)] \<and>
      holding evs = [] \<and> holding (butlast evs) = []) \<and>
   fst (device_cycle (cv\<lparr>cap_release := \<lambda>j s. if s = Cleanup then r else cap_release cv j s\<rparr>)
          self env i d) = fst (device_cycle cv self env i d) \<and>
   snd (snd (device_cycle (cv\<lparr>cap_release := \<lambda>j s. if s = Cleanup then r else cap_release cv j s\<rparr>)
          self env i d)) = snd (snd (device_cycle cv self env i d)) \<and>
   step_open (step_open H (CallRelease i (Ret ()))) (CallRelease i r) =
     step_open H (CallRelease i (Ret ()))"
proof (intro conjI impI)
  assume a: "device_cycle cv self env i d = (Returned True, evs, d1)"
  let ?t = "snd (snd (test_camera cv i 3 0))"
  let ?c = "snd (capture_frame cv i 3 (fst (snd (test_camera cv i 3 0))) (None, None))"
  from device_cycle_Returned_True_events [OF a] obtain n where
    e: "evs =
      [Log DEBUG (TryingCamera i), CallVideoCapture i (Ret True), CallSet i (Ret ())] @
      ?t @ [Sleep 100] @ ?c @
      [CallMakedirs (dirname (filepath_of self env i)),
       CallImwrite (filepath_of self env i) (Ret True),
       Log SUCCESS (Captured (generate_filename_safe self (clock env i)) n),
       CallRelease i (Ret ()), CallDestroyAllWindows (Ret ()), Sleep 100,
       CallRelease i (cap_release cv i Cleanup)]"
    by blast
  have it: "list_all inert ?t" and ic: "list_all inert ?c"
    by (rule test_camera_inert, rule capture_frame_inert)
  show "filter is_release evs =
        [CallRelease i (Ret ()), CallRelease i (cap_release cv i Cleanup)]"
    unfolding e using inert_filter [OF it] inert_filter [OF ic] by simp
  have b: "butlast evs =
      [Log DEBUG (TryingCamera i), CallVideoCapture i (Ret True), CallSet i (Ret ())] @
      ?t @ [Sleep 100] @ ?c @
      [CallMakedirs (dirname (filepath_of self env i)),
       CallImwrite (filepath_of self env i) (Ret True),
       Log SUCCESS (Captured (generate_filename_safe self (clock env i)) n),
       CallRelease i (Ret ()), CallDestroyAllWindows (Ret ()), Sleep 100]"
    unfolding e by (simp add: butlast_append)
  show hb: "holding (butlast evs) = []"
    unfolding b holding_def by (simp add: inert_foldl [OF it] inert_foldl [OF ic])
  show "holding evs = []"
    unfolding e holding_def
    by (cases "cap_release cv i Cleanup") (simp_all add: inert_foldl [OF it] inert_foldl [OF ic])
next
  show "fst (device_cycle (cv\<lparr>cap_release := \<lambda>j s. if s = Cleanup then r else cap_release cv j s\<rparr>)
          self env i d) = fst (device_cycle cv self env i d)"
    unfolding device_cycle_def by (simp add: try_body_ignores_cleanup case_prod_beta)
next
  show "snd (snd (device_cycle (cv\<lparr>cap_release := \<lambda>j s. if s = Cleanup then r else cap_release cv j s\<rparr>)
          self env i d)) = snd (snd (device_cycle cv self env i d))"
    unfolding device_cycle_def by (simp add: try_body_ignores_cleanup case_prod_beta)
next
  show "step_open (step_open H (CallRelease i (Ret ()))) (CallRelease i r) =
     step_open H (CallRelease i (Ret ()))"
    by (cases r) simp_all
qed

section \<open>The file name\<close>

text \<open>
  What \<open>_generate_filename_safe\<close> does guarantee, for a clock within the ranges of the
  calendar: the name has at most 200 characters (the truncation of lines 524-527 is never
  needed), contains none of the characters of \<open>invalid_chars\<close>, the two path separators
  among them, and ends in \<open>.jpg\<close>.
\<close>

lemma dec_length: "0 < k \<Longrightarrow> n < 10 ^ k \<Longrightarrow> length (dec n) \<le> k"
proof (induction k arbitrary: n)
  case 0
  then show ?case by simp
next
  case (Suc k)
  show ?case
  proof (cases "n < 10")
    case True
    then show ?thesis by (simp add: dec.simps [of n])
  next
    case False
    with Suc.prems have "0 < k" by (cases k) auto
    moreover from Suc.prems have "n div 10 < 10 ^ k" by (simp add: less_mult_imp_div_less)
    ultimately have "length (dec (n div 10)) \<le> k" by (rule Suc.IH)
    with False show ?thesis by (simp add: dec.simps [of n])
  qed
qed

lemma zfill_length: "length (zfill w s) = max w (length s)"
  by (simp add: zfill_def)

lemma strftime_length: "well_formed_clock t \<Longrightarrow> length (strftime t) \<le> 15"
  using dec_length [of 4 "tm_year t"] dec_length [of 2 "tm_mon t"] dec_length [of 2 "tm_mday t"]
    dec_length [of 2 "tm_hour t"] dec_length [of 2 "tm_min t"] dec_length [of 2 "tm_sec t"]
  by (simp add: well_formed_clock_def strftime_def zfill_length)

lemma replace_char_length: "length (replace_char c s) = length s"
  by (simp add: replace_char_def)

lemma fold_replace_char_length: "length (fold replace_char cs s) = length s"
  by (induction cs arbitrary: s) (simp_all add: replace_char_length)

lemma replace_char_append: "replace_char c (a @ b) = replace_char c a @ replace_char c b"
  by (simp add: replace_char_def)

lemma fold_replace_char_append:
  "fold replace_char cs (a @ b) = fold replace_char cs a @ fold replace_char cs b"
  by (induction cs arbitrary: a b) (simp_all add: replace_char_append)

lemma replace_char_set: "set (replace_char c s) \<subseteq> (set s - {c}) \<union> {CHR ''_''}"
  by (auto simp: replace_char_def)

lemma fold_replace_char_set:
  "set (fold replace_char cs s) \<subseteq> (set s - set cs) \<union> {CHR ''_''}"
proof (induction cs arbitrary: s)
  case Nil
  then show ?case by auto
next
  case (Cons c cs)
  have "set (fold replace_char cs (replace_char c s)) \<subseteq>
      (set (replace_char c s) - set cs) \<union> {CHR ''_''}"
    by (rule Cons.IH)
  with replace_char_set [of c s] show ?case by auto
qed

lemma sanitised_jpg: "fold replace_char invalid_chars ''.jpg'' = ''.jpg''"
  by (simp add: invalid_chars_def replace_char_def)

lemma join_underscore_length:
  "length (join_underscore
     ((if h then [take 30 a] else []) @ (if m then [take 20 b] else []) @
      (if u then [take 20 c] else []) @ [ts])) \<le> 73 + length ts"
  by (cases h; cases m; cases u) simp_all

lemma well_formed_noon: "well_formed_clock noon"
  by (simp add: well_formed_clock_def noon_def)

lemma generate_filename_safe_contract:
  assumes "well_formed_clock t"
  shows "length (generate_filename_safe self t) \<le> 200 \<and>
         set (generate_filename_safe self t) \<inter> set invalid_chars = {} \<and>
         (\<exists>name. generate_filename_safe self t = name @ ''.jpg'')"
proof -
  define ts where "ts = strftime t @
            (case microsecond t of
               Ret us \<Rightarrow> ''_'' @ zfill 3 (dec (us div 1000))
             | Raise e \<Rightarrow> ''_000'')"
  define body where "body = join_underscore
     ((if hostname self \<noteq> [] \<and> hostname self \<noteq> ''unknown_host''
             then [take 30 (hostname self)] else []) @
            (if mac self \<noteq> [] \<and> mac self \<noteq> ''unknown-mac''
             then [take 20 (mac self)] else []) @
            (if username self \<noteq> [] \<and> username self \<noteq> ''unknown_user''
             then [take 20 (username self)] else []) @
            [ts])"
  have ms: "length (case microsecond t of
               Ret us \<Rightarrow> ''_'' @ zfill 3 (dec (us div 1000))
             | Raise e \<Rightarrow> ''_000'') \<le> 4"
  proof (cases "microsecond t")
    case (Ret us)
    with assms have "us div 1000 < 10 ^ 3"
      by (simp add: well_formed_clock_def less_mult_imp_div_less)
    from dec_length [OF _ this] Ret show ?thesis by (simp add: zfill_length)
  next
    case (Raise e)
    then show ?thesis by simp
  qed
  with strftime_length [OF assms] have "length ts \<le> 19" by (simp add: ts_def)
  moreover have "length body \<le> 73 + length ts"
    unfolding body_def by (rule join_underscore_length)
  ultimately have b: "length body \<le> 92" by linarith
  let ?fn = "fold replace_char invalid_chars (body @ ''.jpg'')"
  from b have short: "\<not> 200 < length ?fn"
    by (simp add: fold_replace_char_length)
  have "generate_filename_safe self t =
      (if 200 < length ?fn
       then (case splitext ?fn of (name, ext) \<Rightarrow> take (200 - length ext) name @ ext)
       else ?fn)"
    unfolding generate_filename_safe_def Let_def body_def ts_def by (rule refl)
  with short have g: "generate_filename_safe self t = ?fn"
    by (simp only: if_False)
  have e: "?fn = fold replace_char invalid_chars body @ ''.jpg''"
    by (simp only: fold_replace_char_append sanitised_jpg)
  have "CHR ''_'' \<notin> set invalid_chars" by (simp add: invalid_chars_def)
  with fold_replace_char_set [of invalid_chars "body @ ''.jpg''"]
  have "set ?fn \<inter> set invalid_chars = {}" by auto
  moreover from b have "length ?fn \<le> 200"
    by (simp only: fold_replace_char_length length_append) simp
  ultimately show ?thesis unfolding g using e by blast
qed

section \<open>Evaluation\<close>

lemma upt_0_5: "[0..<5] = [0, 1, 2, 3, 4]"
  by (simp add: upt_rec)

lemma alice_path:
  "filepath_of (alice cv) still_env i =
     ''camshots/host_aa-bb-cc-dd-ee-ff_alice_20240101_120000_000.jpg''"
  by code_simp

lemmas world_defs = working_cv2_def flaky_cv2_def no_camera_cv2_def write_denied_cv2_def
  blind_cv2_def truncating_cv2_def sticky_cv2_def oom_cv2_def still_env_def alice_def
  script_def good_frame_def

lemmas read_loop_steps = numeral_3_eq_3 test_camera_step_ok test_camera_step_bad
  capture_frame_step_ok capture_frame_step_bad read_ok_def frame_ok_def next_rf_def

text \<open>
  Claim C9 says that the generated file name contains no control character. For the user
  name \<open>al\<close>, BEL, \<open>ice\<close> the name that \<open>_generate_filename_safe\<close> returns still
  contains the character 0x07: the list \<open>invalid_chars\<close> holds no control character but
  line feed, carriage return, tab and NUL.
\<close>

theorem filename_keeps_control_character:
  "generate_filename_safe bel_user noon =
     ''host_aa-bb-cc-dd-ee-ff_al'' @ [CHR 0x07] @ ''ice_20240101_120000_000.jpg'' \<and>
   CHR 0x07 \<in> set (generate_filename_safe bel_user noon)"
  by code_simp



lemma oom_test_1:
  "test_camera oom_cv2 1 3 0 = (True, 1, [CallRead 1 good_frame])"
  by (simp add: read_loop_steps world_defs)

lemma oom_test_2:
  "test_camera oom_cv2 2 3 0 = (True, 1, [CallRead 2 good_frame])"
  by (simp add: read_loop_steps world_defs)

lemma oom_capture_2:
  "capture_frame oom_cv2 2 3 1 (None, None) =
     ((Some True, Some 921600), [CallRead 2 good_frame])"
  by (simp add: read_loop_steps world_defs)

section \<open>Paths of one iteration, with their events\<close>


lemma device_cycle_not_opened_events:
  "VideoCapture cv i = Ret False \<Longrightarrow> cap_release cv i NotOpened = Ret () \<Longrightarrow>
   device_cycle cv self env i d =
     (NextCamera,
      [Log DEBUG (TryingCamera i), CallVideoCapture i (Ret False),
       Log DEBUG (CouldNotBeOpened i), CallRelease i (Ret ()),
       CallRelease i (cap_release cv i Cleanup)], d)"
  unfolding device_cycle_def try_body_def Let_def
  by (simp add: release_then_def handlers_def cleanup_def)

lemma device_cycle_capture_failed:
  assumes "VideoCapture cv i = Ret True" and "cap_set cv i = Ret ()"
    and "test_camera cv i 3 0 = (True, k, tevs)"
    and "\<forall>j<3. \<not> read_ok (cap_read cv i (k + j))"
    and "cap_release cv i CaptureFailed = Ret ()"
  shows "device_cycle cv self env i d =
           (NextCamera,
            [Log DEBUG (TryingCamera i), CallVideoCapture i (Ret True), CallSet i (Ret ())] @
            tevs @ [Sleep 100] @
            [CallRead i (cap_read cv i k), Sleep 50,
             CallRead i (cap_read cv i (k + 1)), Sleep 50,
             CallRead i (cap_read cv i (k + 2)), Sleep 50] @
            [Log DEBUG (CameraCaptureFailed i), CallRelease i (Ret ()),
             CallRelease i (cap_release cv i Cleanup)],
            d)"
proof -
  have nf: "no_frame (fst (capture_frame cv i 3 k (None, None)))"
    using assms(4) by (simp add: capture_frame_no_frame_iff no_frame_initially)
  have ev: "snd (capture_frame cv i 3 k (None, None)) =
      [CallRead i (cap_read cv i k), Sleep 50,
       CallRead i (cap_read cv i (k + 1)), Sleep 50,
       CallRead i (cap_read cv i (k + 2)), Sleep 50]"
    using capture_frame_all_bad_events [OF assms(4), of "(None, None)"]
    by (simp add: upt_0_3)
  show ?thesis
    using assms(1,2,3,5) nf ev
    unfolding device_cycle_def try_body_def Let_def
    by (cases "capture_frame cv i 3 k (None, None)")
       (simp add: release_then_def handlers_def cleanup_def)
qed

lemma device_cycle_save_failed:
  assumes "VideoCapture cv i = Ret True" and "cap_set cv i = Ret ()"
    and "fst (test_camera cv i 3 0)"
    and "\<not> no_frame (fst (capture_frame cv i 3 (fst (snd (test_camera cv i 3 0))) (None, None)))"
    and "save_image cv env i (generate_filename_safe self (clock env i))
           (filepath_of self env i) d = (Fallthrough, sevs, d1)"
    and "cap_release cv i AfterSave = Ret ()"
  shows "device_cycle cv self env i d =
           (NextCamera,
            [Log DEBUG (TryingCamera i), CallVideoCapture i (Ret True), CallSet i (Ret ())] @
            snd (snd (test_camera cv i 3 0)) @ [Sleep 100] @
            snd (capture_frame cv i 3 (fst (snd (test_camera cv i 3 0))) (None, None)) @
            [CallMakedirs (dirname (filepath_of self env i))] @ sevs @
            [CallRelease i (Ret ()), CallRelease i (cap_release cv i Cleanup)],
            d1)"
  using assms unfolding device_cycle_def try_body_def Let_def
  by (simp add: case_prod_beta filepath_of_def release_then_def handlers_def cleanup_def)


lemma device_cycle_Raised:
  assumes "try_body cv self env i d = (Raised e, c, bevs, d1)" and "e \<noteq> MemoryError"
  shows "device_cycle cv self env i d =
     (NextCamera,
      bevs @ [Log ERROR (if e = CvError then OpenCVError i else UnexpectedError i e)] @
      cleanup cv i c, d1)"
  using assms unfolding device_cycle_def
  by (cases e) (simp_all add: handlers_def)













section \<open>Runs\<close>

lemma alice_cv2: "cv2 (alice (Some cv)) = Some cv"
  and alice_available: "modules_available (alice (Some cv)) ''cv2'' = Some True"
  by (simp_all add: alice_def)

lemma capture_alice:
  "capture (alice (Some cv)) env d =
     (fst (try_cameras cv (alice (Some cv)) env [0, 1, 2, 3, 4] 0 d),
      Log INFO StartingCapture # fst (snd (try_cameras cv (alice (Some cv)) env [0, 1, 2, 3, 4] 0 d)),
      snd (snd (try_cameras cv (alice (Some cv)) env [0, 1, 2, 3, 4] 0 d)))"
  by (simp add: capture_def alice_cv2 alice_available max_cameras_def upt_0_5 case_prod_beta)

lemma alice_filename:
  "generate_filename_safe (alice cv) (clock still_env i) =
     ''host_aa-bb-cc-dd-ee-ff_alice_20240101_120000_000.jpg''"
  by code_simp

lemma alice_dirname:
  "dirname ''camshots/host_aa-bb-cc-dd-ee-ff_alice_20240101_120000_000.jpg'' = ''camshots''"
  by code_simp



lemma oom_cycle_0:
  "device_cycle oom_cv2 self env 0 d =
     (NextCamera,
      [Log DEBUG (TryingCamera 0), CallVideoCapture 0 (Ret False),
       Log DEBUG (CouldNotBeOpened 0), CallRelease 0 (Ret ()), CallRelease 0 (Ret ())], d)"
  by (simp add: device_cycle_not_opened_events world_defs)

lemma oom_cycle_1:
  "device_cycle oom_cv2 self env (Suc 0) d =
     (NextCamera,
      [Log DEBUG (TryingCamera 1), CallVideoCapture 1 (Ret True), CallSet 1 (Ret ()),
       CallRead 1 good_frame, Sleep 100,
       CallRead 1 (Raise MemoryError), Sleep 50, CallRead 1 (Raise MemoryError), Sleep 50,
       CallRead 1 (Raise MemoryError), Sleep 50,
       Log DEBUG (CameraCaptureFailed 1), CallRelease 1 (Ret ()), CallRelease 1 (Ret ())], d)"
proof -
  have t: "test_camera oom_cv2 (Suc 0) 3 0 = (True, 1, [CallRead 1 good_frame])"
    using oom_test_1 by simp
  have "device_cycle oom_cv2 self env (Suc 0) d =
           (NextCamera,
            [Log DEBUG (TryingCamera (Suc 0)), CallVideoCapture (Suc 0) (Ret True),
             CallSet (Suc 0) (Ret ())] @
            [CallRead 1 good_frame] @ [Sleep 100] @
            [CallRead (Suc 0) (cap_read oom_cv2 (Suc 0) 1), Sleep 50,
             CallRead (Suc 0) (cap_read oom_cv2 (Suc 0) (1 + 1)), Sleep 50,
             CallRead (Suc 0) (cap_read oom_cv2 (Suc 0) (1 + 2)), Sleep 50] @
            [Log DEBUG (CameraCaptureFailed (Suc 0)), CallRelease (Suc 0) (Ret ()),
             CallRelease (Suc 0) (cap_release oom_cv2 (Suc 0) Cleanup)],
            d)"
    by (rule device_cycle_capture_failed [OF _ _ t])
       (simp_all add: world_defs read_ok_def)
  then show ?thesis by (simp add: world_defs)
qed

lemma oom_cycle_2:
  "device_cycle oom_cv2 (alice (Some oom_cv2)) still_env 2 d =
     (Returned True,
      [Log DEBUG (TryingCamera 2), CallVideoCapture 2 (Ret True), CallSet 2 (Ret ()),
       CallRead 2 good_frame, Sleep 100, CallRead 2 good_frame,
       CallMakedirs ''camshots'',
       CallImwrite ''camshots/host_aa-bb-cc-dd-ee-ff_alice_20240101_120000_000.jpg'' (Ret True),
       Log SUCCESS (Captured ''host_aa-bb-cc-dd-ee-ff_alice_20240101_120000_000.jpg'' 15000),
       CallRelease 2 (Ret ()), CallDestroyAllWindows (Ret ()), Sleep 100, CallRelease 2 (Ret ())],
      d(''camshots/host_aa-bb-cc-dd-ee-ff_alice_20240101_120000_000.jpg'' \<mapsto> 15000))"
proof -
  have "device_cycle oom_cv2 (alice (Some oom_cv2)) still_env 2 d =
     (Returned True,
      [Log DEBUG (TryingCamera 2), CallVideoCapture 2 (Ret True), CallSet 2 (Ret ())] @
      [CallRead 2 good_frame] @ [Sleep 100] @ [CallRead 2 good_frame] @
      [CallMakedirs (dirname (filepath_of (alice (Some oom_cv2)) still_env 2)),
       CallImwrite (filepath_of (alice (Some oom_cv2)) still_env 2) (Ret True),
       Log SUCCESS (Captured (generate_filename_safe (alice (Some oom_cv2)) (clock still_env 2)) 15000),
       CallRelease 2 (Ret ()), CallDestroyAllWindows (Ret ()), Sleep 100,
       CallRelease 2 (cap_release oom_cv2 2 Cleanup)],
      d(filepath_of (alice (Some oom_cv2)) still_env 2 \<mapsto> 15000))"
    by (rule device_cycle_success [OF _ _ oom_test_2 oom_capture_2])
       (simp_all add: world_defs no_frame_def)
  then show ?thesis
    unfolding alice_path alice_filename alice_dirname
    by (simp add: oom_cv2_def working_cv2_def)
qed

text \<open>
  Claim C3 says that a \<open>MemoryError\<close> during any step of a device cycle, a read of the
  capture loop included, aborts the run with no further index probed. At \<open>oom_cv2\<close>
  the three capture reads of camera 1 raise \<open>MemoryError\<close>: the bare \<open>except:\<close> of
  lines 599-601 swallows each, camera 1 is abandoned as an ordinary capture failure, camera 2
  is probed, and the run returns \<open>True\<close> without any entry at level \<open>ERROR\<close>.
\<close>

theorem memory_error_in_read_is_swallowed:
  "fst (capture (alice (Some oom_cv2)) still_env Map.empty) = True \<and>
   open_attempts (fst (snd (capture (alice (Some oom_cv2)) still_env Map.empty))) =
     [CallVideoCapture 0 (Ret False), CallVideoCapture 1 (Ret True), CallVideoCapture 2 (Ret True)] \<and>
   filter is_read (fst (snd (capture (alice (Some oom_cv2)) still_env Map.empty))) =
     [CallRead 1 good_frame, CallRead 1 (Raise MemoryError), CallRead 1 (Raise MemoryError),
      CallRead 1 (Raise MemoryError), CallRead 2 good_frame, CallRead 2 good_frame] \<and>
   filter is_error_log (fst (snd (capture (alice (Some oom_cv2)) still_env Map.empty))) = []"
  by (simp add: capture_alice oom_cycle_0 oom_cycle_1 oom_cycle_2 open_attempts_def)

text \<open>C3 at \<open>oom_cv2\<close>: the second read of camera 1 raises \<open>MemoryError\<close>, and
  camera 2 is opened afterwards.\<close>

theorem memory_error_in_read_is_swallowed_witness:
  "cap_read oom_cv2 1 1 = Raise MemoryError \<and>
   fst (capture (alice (Some oom_cv2)) still_env Map.empty) = True \<and>
   CallVideoCapture 2 (Ret True) \<in>
     set (open_attempts (fst (snd (capture (alice (Some oom_cv2)) still_env Map.empty))))"
proof -
  have "cap_read oom_cv2 1 1 = Raise MemoryError"
    by (simp add: world_defs)
  with memory_error_in_read_is_swallowed show ?thesis
    by simp
qed

text \<open>C10 at an object without OpenCV.\<close>

theorem capture_without_opencv_witness:
  "cv2 (alice None) = None \<and>
   capture (alice None) still_env Map.empty =
     (False, [Log INFO StartingCapture, Log ERROR OpenCVNotAvailable, Log INFO InstallHint],
      Map.empty) \<and>
   open_attempts (fst (snd (capture (alice None) still_env Map.empty))) = []"
proof -
  have h: "modules_available (alice None) ''cv2'' \<noteq> Some True \<or> cv2 (alice None) = None"
    by (simp add: alice_def)
  have n: "cv2 (alice None) = None"
    by (simp add: alice_def)
  from capture_without_opencv [OF h, of still_env Map.empty] n show ?thesis
    by blast
qed

text \<open>C5 at \<open>flaky_cv2\<close>: two failed reads, success on the third of three attempts.\<close>

theorem test_camera_retries_witness:
  "\<not> read_ok (cap_read flaky_cv2 0 0) \<and> \<not> read_ok (cap_read flaky_cv2 0 1) \<and>
   read_ok (cap_read flaky_cv2 0 2) \<and>
   test_camera flaky_cv2 0 3 0 =
     (True, 3,
      [CallRead 0 (Raise OtherException), Sleep 100, CallRead 0 (Ret (False, None)), Sleep 100,
       CallRead 0 (Ret (True, Some 921600))]) \<and>
   length (filter is_read (snd (snd (test_camera flaky_cv2 0 3 0)))) \<le> 3"
proof -
  have bad: "\<forall>j<2. \<not> read_ok (cap_read flaky_cv2 0 (0 + j))"
    by (simp add: world_defs read_ok_def frame_ok_def less_2_cases_iff)
  have good: "read_ok (cap_read flaky_cv2 0 (0 + 2))"
    by (simp add: world_defs read_ok_def frame_ok_def)
  from test_camera_retries [of flaky_cv2 0 3 0]
  have le: "length (filter is_read (snd (snd (test_camera flaky_cv2 0 3 0)))) \<le> 3"
    and first: "\<forall>m<3. (\<forall>j<m. \<not> read_ok (cap_read flaky_cv2 0 (0 + j))) \<and>
        read_ok (cap_read flaky_cv2 0 (0 + m)) \<longrightarrow>
      test_camera flaky_cv2 0 3 0 =
        (True, Suc (0 + m),
         concat (map (\<lambda>j. [CallRead 0 (cap_read flaky_cv2 0 (0 + j)), Sleep 100]) [0..<m]) @
         [CallRead 0 (cap_read flaky_cv2 0 (0 + m))])"
    by simp_all
  from first bad good have "test_camera flaky_cv2 0 3 0 =
        (True, Suc (0 + 2),
         concat (map (\<lambda>j. [CallRead 0 (cap_read flaky_cv2 0 (0 + j)), Sleep 100]) [0..<2]) @
         [CallRead 0 (cap_read flaky_cv2 0 (0 + 2))])"
    using first [rule_format, of 2] by simp
  then have "test_camera flaky_cv2 0 3 0 =
     (True, 3,
      [CallRead 0 (Raise OtherException), Sleep 100, CallRead 0 (Ret (False, None)), Sleep 100,
       CallRead 0 (Ret (True, Some 921600))])"
    by (simp add: upt_rec world_defs)
  moreover have "\<not> read_ok (cap_read flaky_cv2 0 0)" "\<not> read_ok (cap_read flaky_cv2 0 1)"
    "read_ok (cap_read flaky_cv2 0 2)"
    by (simp_all add: world_defs read_ok_def frame_ok_def)
  ultimately show ?thesis using le by blast
qed

text \<open>C2 at \<open>no_camera_cv2\<close>: five attempts, one of which raises \<open>cv2.error\<close>.\<close>

theorem all_cameras_fail_to_open_witness:
  "cv2 (alice (Some no_camera_cv2)) = Some no_camera_cv2 \<and>
   modules_available (alice (Some no_camera_cv2)) ''cv2'' = Some True \<and>
   list_all (\<lambda>i. VideoCapture no_camera_cv2 i = Ret False \<or>
      VideoCapture no_camera_cv2 i = Raise CvError) [0, 1, 2, 3, 4] \<and>
   list_all (\<lambda>i. cap_release no_camera_cv2 i NotOpened = Ret ()) [0, 1, 2, 3, 4] \<and>
   fst (capture (alice (Some no_camera_cv2)) still_env Map.empty) = False \<and>
   open_attempts (fst (snd (capture (alice (Some no_camera_cv2)) still_env Map.empty))) =
     [CallVideoCapture 0 (Ret False), CallVideoCapture 1 (Raise CvError),
      CallVideoCapture 2 (Ret False), CallVideoCapture 3 (Ret False),
      CallVideoCapture 4 (Ret False)] \<and>
   holding (fst (snd (capture (alice (Some no_camera_cv2)) still_env Map.empty))) = []"
proof -
  have o: "\<forall>i<max_cameras. VideoCapture no_camera_cv2 i = Ret False \<or>
      VideoCapture no_camera_cv2 i = Raise CvError \<or>
      VideoCapture no_camera_cv2 i = Raise OtherException"
    by (simp add: world_defs nth_Cons')
  have r: "\<forall>i<max_cameras. cap_release no_camera_cv2 i NotOpened \<noteq> Raise MemoryError"
    by (simp add: world_defs)
  note t = all_cameras_fail_to_open [OF alice_cv2 alice_available o r, of still_env Map.empty]
  from t have "holding (fst (snd (capture (alice (Some no_camera_cv2)) still_env Map.empty))) = []"
    by blast
  moreover from t have
    "open_attempts (fst (snd (capture (alice (Some no_camera_cv2)) still_env Map.empty))) =
     [CallVideoCapture 0 (Ret False), CallVideoCapture 1 (Raise CvError),
      CallVideoCapture 2 (Ret False), CallVideoCapture 3 (Ret False),
      CallVideoCapture 4 (Ret False)]"
    by (simp add: max_cameras_def upt_0_5 world_defs)
  moreover have "list_all (\<lambda>i. VideoCapture no_camera_cv2 i = Ret False \<or>
      VideoCapture no_camera_cv2 i = Raise CvError) [0, 1, 2, 3, 4]"
    and "list_all (\<lambda>i. cap_release no_camera_cv2 i NotOpened = Ret ()) [0, 1, 2, 3, 4]"
    by (simp_all add: world_defs)
  ultimately show ?thesis
    using t by (simp add: alice_cv2 alice_available)
qed




text \<open>C4 at \<open>write_denied_cv2\<close>, where the write of camera 0 and the constructor for
  index 1 raise.\<close>

theorem one_device_at_a_time_witness:
  "cv2 (alice (Some write_denied_cv2)) = Some write_denied_cv2 \<and>
   list_all (\<lambda>i. cap_release write_denied_cv2 i Cleanup = Ret ()) [0, 1, 2, 3, 4] \<and>
   imwrite write_denied_cv2 0 = Raise OtherException \<and>
   VideoCapture write_denied_cv2 1 = Raise CvError \<and>
   list_all
     (\<lambda>n. length (holding
        (take n (fst (snd (capture (alice (Some write_denied_cv2)) still_env Map.empty))))) \<le> 1)
     [0..<Suc (length (fst (snd (capture (alice (Some write_denied_cv2)) still_env Map.empty))))] \<and>
   holding (fst (snd (capture (alice (Some write_denied_cv2)) still_env Map.empty))) = []"
proof -
  have r: "\<forall>i<max_cameras. cap_release write_denied_cv2 i Cleanup = Ret ()"
    by (simp add: world_defs)
  have w: "imwrite write_denied_cv2 0 = Raise OtherException"
    and v: "VideoCapture write_denied_cv2 1 = Raise CvError"
    by (simp_all add: world_defs)
  have r': "list_all (\<lambda>i. cap_release write_denied_cv2 i Cleanup = Ret ()) [0, 1, 2, 3, 4]"
    by (simp add: world_defs)
  note t = one_device_at_a_time [OF alice_cv2 r, of still_env Map.empty]
  from t have "length (holding
        (take n (fst (snd (capture (alice (Some write_denied_cv2)) still_env Map.empty))))) \<le> 1"
    for n
    using take_is_prefix by blast
  then have "list_all
     (\<lambda>n. length (holding
        (take n (fst (snd (capture (alice (Some write_denied_cv2)) still_env Map.empty))))) \<le> 1)
     [0..<Suc (length (fst (snd (capture (alice (Some write_denied_cv2)) still_env Map.empty))))]"
    by (simp add: list_all_iff)
  with t r' w v show ?thesis
    by (simp add: alice_cv2)
qed

lemma sticky_cycle:
  "device_cycle sticky_cv2 (alice (Some sticky_cv2)) still_env 0 Map.empty =
     (Returned True,
      [Log DEBUG (TryingCamera 0), CallVideoCapture 0 (Ret True), CallSet 0 (Ret ()),
       CallRead 0 good_frame, Sleep 100, CallRead 0 good_frame,
       CallMakedirs ''camshots'',
       CallImwrite ''camshots/host_aa-bb-cc-dd-ee-ff_alice_20240101_120000_000.jpg'' (Ret True),
       Log SUCCESS (Captured ''host_aa-bb-cc-dd-ee-ff_alice_20240101_120000_000.jpg'' 15000),
       CallRelease 0 (Ret ()), CallDestroyAllWindows (Ret ()), Sleep 100,
       CallRelease 0 (Raise CvError)],
      [''camshots/host_aa-bb-cc-dd-ee-ff_alice_20240101_120000_000.jpg'' \<mapsto> 15000])"
proof -
  have t: "test_camera sticky_cv2 0 3 0 = (True, 1, [CallRead 0 good_frame])"
    by (simp add: read_loop_steps world_defs)
  have c: "capture_frame sticky_cv2 0 3 1 (None, None) =
      ((Some True, Some 921600), [CallRead 0 good_frame])"
    by (simp add: read_loop_steps world_defs)
  have "device_cycle sticky_cv2 (alice (Some sticky_cv2)) still_env 0 Map.empty =
     (Returned True,
      [Log DEBUG (TryingCamera 0), CallVideoCapture 0 (Ret True), CallSet 0 (Ret ())] @
      [CallRead 0 good_frame] @ [Sleep 100] @ [CallRead 0 good_frame] @
      [CallMakedirs (dirname (filepath_of (alice (Some sticky_cv2)) still_env 0)),
       CallImwrite (filepath_of (alice (Some sticky_cv2)) still_env 0) (Ret True),
       Log SUCCESS (Captured (generate_filename_safe (alice (Some sticky_cv2)) (clock still_env 0)) 15000),
       CallRelease 0 (Ret ()), CallDestroyAllWindows (Ret ()), Sleep 100,
       CallRelease 0 (cap_release sticky_cv2 0 Cleanup)],
      Map.empty(filepath_of (alice (Some sticky_cv2)) still_env 0 \<mapsto> 15000))"
    by (rule device_cycle_success [OF _ _ t c])
       (simp_all add: world_defs no_frame_def)
  then show ?thesis
    unfolding alice_path alice_filename alice_dirname
    by (simp add: sticky_cv2_def working_cv2_def)
qed

text \<open>C8 at \<open>sticky_cv2\<close>, where the second release raises \<open>cv2.error\<close>.\<close>

theorem release_twice_on_success_witness:
  "fst (device_cycle sticky_cv2 (alice (Some sticky_cv2)) still_env 0 Map.empty) = Returned True \<and>
   cap_release sticky_cv2 0 Cleanup = Raise CvError \<and>
   filter is_release (fst (snd (device_cycle sticky_cv2 (alice (Some sticky_cv2)) still_env 0
       Map.empty))) =
     [CallRelease 0 (Ret ()), CallRelease 0 (Raise CvError)] \<and>
   holding (fst (snd (device_cycle sticky_cv2 (alice (Some sticky_cv2)) still_env 0
       Map.empty))) = []"
proof -
  have r: "cap_release sticky_cv2 0 Cleanup = Raise CvError"
    by (simp add: world_defs)
  from release_twice_on_success [of sticky_cv2 "alice (Some sticky_cv2)" still_env 0 Map.empty
      "fst (snd (device_cycle sticky_cv2 (alice (Some sticky_cv2)) still_env 0 Map.empty))"
      "snd (snd (device_cycle sticky_cv2 (alice (Some sticky_cv2)) still_env 0 Map.empty))"]
    sticky_cycle r
  show ?thesis by simp
qed

lemma truncating_test:
  "test_camera truncating_cv2 i 3 0 = (True, Suc 0, [CallRead i good_frame])"
  by (simp add: read_loop_steps world_defs)

lemma truncating_capture:
  "capture_frame truncating_cv2 i 3 (Suc 0) (None, None) =
     ((Some True, Some 921600), [CallRead i good_frame])"
  by (simp add: read_loop_steps world_defs)

lemma truncating_cycle_1:
  "fst (device_cycle truncating_cv2 (alice (Some truncating_cv2)) still_env (Suc 0) d) =
     Returned True"
proof -
  have "device_cycle truncating_cv2 (alice (Some truncating_cv2)) still_env (Suc 0) d =
     (Returned True,
      [Log DEBUG (TryingCamera (Suc 0)), CallVideoCapture (Suc 0) (Ret True),
       CallSet (Suc 0) (Ret ())] @
      [CallRead (Suc 0) good_frame] @ [Sleep 100] @ [CallRead (Suc 0) good_frame] @
      [CallMakedirs (dirname (filepath_of (alice (Some truncating_cv2)) still_env (Suc 0))),
       CallImwrite (filepath_of (alice (Some truncating_cv2)) still_env (Suc 0)) (Ret True),
       Log SUCCESS (Captured (generate_filename_safe (alice (Some truncating_cv2))
         (clock still_env (Suc 0))) 15000),
       CallRelease (Suc 0) (Ret ()), CallDestroyAllWindows (Ret ()), Sleep 100,
       CallRelease (Suc 0) (cap_release truncating_cv2 (Suc 0) Cleanup)],
      d(filepath_of (alice (Some truncating_cv2)) still_env (Suc 0) \<mapsto> 15000))"
    by (rule device_cycle_success [OF _ _ truncating_test truncating_capture])
       (simp_all add: world_defs no_frame_def)
  then show ?thesis by simp
qed

text \<open>
  C1 at \<open>truncating_cv2\<close>: camera 0 leaves a file of exactly 100 bytes and is passed over,
  camera 1 leaves 15000 bytes and the run succeeds.
\<close>

theorem success_only_for_verified_file_witness:
  "imwrite truncating_cv2 0 = Ret True \<and> imwrite_file truncating_cv2 0 = Some 100 \<and>
   fst (device_cycle truncating_cv2 (alice (Some truncating_cv2)) still_env 0 Map.empty) =
     NextCamera \<and>
   fst (capture (alice (Some truncating_cv2)) still_env Map.empty) = True \<and>
   (\<exists>cv i n. cv2 (alice (Some truncating_cv2)) = Some cv \<and> i < max_cameras \<and>
      imwrite cv i = Ret True \<and>
      snd (snd (capture (alice (Some truncating_cv2)) still_env Map.empty))
        (filepath_of (alice (Some truncating_cv2)) still_env i) = Some n \<and> 100 < n)"
proof -
  let ?self = "alice (Some truncating_cv2)"
  note claim = success_only_for_verified_file [of ?self still_env Map.empty truncating_cv2 0
      "[1, 2, 3, 4]" 0]
  have w: "imwrite truncating_cv2 0 = Ret True" and f: "imwrite_file truncating_cv2 0 = Some 100"
    by (simp_all add: world_defs)
  have small: "VideoCapture truncating_cv2 0 = Ret True \<and> cap_set truncating_cv2 0 = Ret () \<and>
    fst (test_camera truncating_cv2 0 3 0) \<and>
    \<not> no_frame (fst (capture_frame truncating_cv2 0 3
        (fst (snd (test_camera truncating_cv2 0 3 0))) (None, None))) \<and>
    imwrite truncating_cv2 0 = Ret True \<and>
    (case write_file (imwrite_file truncating_cv2 0) (filepath_of ?self still_env 0) Map.empty
            (filepath_of ?self still_env 0) of
       None \<Rightarrow> True | Some n \<Rightarrow> n \<le> 100) \<and>
    cap_release truncating_cv2 0 AfterSave = Ret ()"
    by (simp add: truncating_test truncating_capture no_frame_def w f write_file_def)
       (simp add: world_defs)
  from claim small have c0: "fst (device_cycle truncating_cv2 ?self still_env 0 Map.empty) = NextCamera"
    and step: "fst (try_cameras truncating_cv2 ?self still_env (0 # [1, 2, 3, 4]) 0 Map.empty) =
        fst (try_cameras truncating_cv2 ?self still_env [1, 2, 3, 4] (Suc 0)
          (snd (snd (device_cycle truncating_cv2 ?self still_env 0 Map.empty))))"
    by blast+
  have "fst (try_cameras truncating_cv2 ?self still_env [1, 2, 3, 4] (Suc 0) d) = True" for d
    using truncating_cycle_1 [of d]
    by (cases "device_cycle truncating_cv2 ?self still_env (Suc 0) d") simp
  with step have ok: "fst (capture ?self still_env Map.empty) = True"
    by (simp add: capture_alice)
  with claim have "\<exists>cv i n. cv2 ?self = Some cv \<and> i < max_cameras \<and>
      imwrite cv i = Ret True \<and>
      snd (snd (capture ?self still_env Map.empty)) (filepath_of ?self still_env i) = Some n \<and>
      100 < n"
    by blast
  with w f c0 ok show ?thesis by blast
qed





end
